theory Spec2Isabelle
  imports Main "HOL-Library.Word" "HOL-Library.Multiset"
begin

unbundle bit_operations_syntax

text \<open>
  A shallow embedding of the core of the drilling service: the proxy name sanitiser of the
  Clash exporter, the tunnel engine over its repository and its registry of running
  tunnels, the handshake of the embedded SOCKS5 server, the Clash configuration generator,
  and the encryption of host secrets. What the code leaves to the operating system, the
  SSH server or a library (binding a port, dialling, the AES block function) is a
  parameter of the model.
\<close>

section \<open>Clash exporter: proxy name sanitiser\<close>

text \<open>
  \<^verbatim>\<open>sanitizeName\<close> of the Clash export service. Go strings are byte sequences and
  every character the replacer looks for is a single ASCII byte, so the replacer built by
  \<^verbatim>\<open>strings.NewReplacer\<close> works byte by byte: nine bytes become a hyphen, four are
  dropped, every other byte is kept. \<^verbatim>\<open>strings.Contains(result, "--")\<close> and
  \<^verbatim>\<open>strings.ReplaceAll(result, "--", "-")\<close> (non-overlapping, left to right) drive
  the loop; \<^verbatim>\<open>strings.Trim(result, "-")\<close> strips hyphens at both ends.
\<close>

definition to_dash :: "char \<Rightarrow> bool" where
  "to_dash c = (c = CHR '' '' \<or> c = CHR ''_'' \<or> c = CHR ''.'' \<or> c = CHR '':'' \<or> c = CHR ''/''
         \<or> c = CHR 0x5C \<or> c = CHR ''|'' \<or> c = CHR ''*'' \<or> c = CHR ''?'')"

definition dropped :: "char \<Rightarrow> bool" where
  "dropped c = (c = CHR 0x22 \<or> c = CHR 0x27 \<or> c = CHR ''<'' \<or> c = CHR ''>'')"

definition replacer_Replace_byte :: "char \<Rightarrow> string" where
  "replacer_Replace_byte c = (if to_dash c then ''-'' else if dropped c then [] else [c])"

definition replacer_Replace :: "string \<Rightarrow> string" where
  "replacer_Replace s = concat (map replacer_Replace_byte s)"

fun Contains_dd :: "string \<Rightarrow> bool" where
  "Contains_dd (a # b # xs) = ((a = CHR ''-'' \<and> b = CHR ''-'') \<or> Contains_dd (b # xs))"
| "Contains_dd xs = False"

fun ReplaceAll_dd :: "string \<Rightarrow> string" where
  "ReplaceAll_dd (a # b # xs) =
     (if a = CHR ''-'' \<and> b = CHR ''-'' then CHR ''-'' # ReplaceAll_dd xs
      else a # ReplaceAll_dd (b # xs))"
| "ReplaceAll_dd xs = xs"

lemma ReplaceAll_dd_length_le: "length (ReplaceAll_dd s) \<le> length s"
  by (induction s rule: ReplaceAll_dd.induct) auto

lemma ReplaceAll_dd_shrinks: "Contains_dd s \<Longrightarrow> length (ReplaceAll_dd s) < length s"
proof (induction s rule: ReplaceAll_dd.induct)
  case (1 a b xs)
  then show ?case
    using ReplaceAll_dd_length_le [of xs] by (auto simp: less_Suc_eq_le)
qed auto

function collapse_dashes :: "string \<Rightarrow> string" where
  "collapse_dashes s = (if Contains_dd s then collapse_dashes (ReplaceAll_dd s) else s)"
  by pat_completeness auto
termination
  by (relation "measure length") (auto simp: ReplaceAll_dd_shrinks)

declare collapse_dashes.simps [simp del]

definition Trim_dash :: "string \<Rightarrow> string" where
  "Trim_dash s = rev (dropWhile (\<lambda>c. c = CHR ''-'') (rev (dropWhile (\<lambda>c. c = CHR ''-'') s)))"

definition sanitizeName :: "string \<Rightarrow> string" where
  "sanitizeName name =
     (let result = Trim_dash (collapse_dashes (replacer_Replace name))
      in if result = [] then ''proxy'' else result)"

definition forbidden_chars :: "char set" where
  "forbidden_chars = {CHR '' '', CHR ''_'', CHR ''.'', CHR '':'', CHR ''/'', CHR 0x5C, CHR ''|'',
     CHR ''*'', CHR ''?'', CHR 0x22, CHR 0x27, CHR ''<'', CHR ''>''}"


lemma forbidden_iff: "c \<in> forbidden_chars \<longleftrightarrow> to_dash c \<or> dropped c"
  unfolding forbidden_chars_def to_dash_def dropped_def insert_iff empty_iff
  by (intro iffI; elim disjE; simp)

lemma dash_ok: "\<not> to_dash CHR ''-''" "\<not> dropped CHR ''-''"
  by (simp_all add: to_dash_def dropped_def)

lemma replacer_byte_clean: "x \<in> set (replacer_Replace_byte c) \<Longrightarrow> x \<notin> forbidden_chars"
  unfolding forbidden_iff replacer_Replace_byte_def
  by (cases "to_dash c"; cases "dropped c") (simp_all add: dash_ok)

lemma replacer_clean: "set (replacer_Replace s) \<inter> forbidden_chars = {}"
  using replacer_byte_clean by (fastforce simp: replacer_Replace_def)

lemma replacer_byte_id: "c \<notin> forbidden_chars \<Longrightarrow> replacer_Replace_byte c = [c]"
  by (simp add: replacer_Replace_byte_def forbidden_iff)

lemma replacer_id: "set s \<inter> forbidden_chars = {} \<Longrightarrow> replacer_Replace s = s"
  by (induction s) (simp_all add: replacer_Replace_def replacer_byte_id)

lemma ReplaceAll_dd_set: "set (ReplaceAll_dd s) \<subseteq> set s"
  by (induction s rule: ReplaceAll_dd.induct) auto

lemma collapse_set: "set (collapse_dashes s) \<subseteq> set s"
proof (induction s rule: collapse_dashes.induct)
  case (1 s)
  then show ?case
    using ReplaceAll_dd_set [of s] by (subst collapse_dashes.simps) auto
qed

lemma collapse_no_dd: "\<not> Contains_dd (collapse_dashes s)"
proof (induction s rule: collapse_dashes.induct)
  case (1 s)
  then show ?case by (subst collapse_dashes.simps) auto
qed

lemma collapse_id: "\<not> Contains_dd s \<Longrightarrow> collapse_dashes s = s"
  by (subst collapse_dashes.simps) simp

lemma Contains_dd_iff: "Contains_dd s \<longleftrightarrow> (\<exists>xs ys. s = xs @ CHR ''-'' # CHR ''-'' # ys)"
proof (induction s rule: Contains_dd.induct)
  case (1 a b xs)
  show ?case
  proof
    assume "Contains_dd (a # b # xs)"
    then consider "a = CHR ''-'' \<and> b = CHR ''-''" | "Contains_dd (b # xs)" by auto
    then show "\<exists>us ys. a # b # xs = us @ CHR ''-'' # CHR ''-'' # ys"
    proof cases
      case 1
      then have "a # b # xs = [] @ CHR ''-'' # CHR ''-'' # xs" by simp
      then show ?thesis by blast
    next
      case 2
      then obtain us ys where "b # xs = us @ CHR ''-'' # CHR ''-'' # ys" using 1 by blast
      then have "a # b # xs = (a # us) @ CHR ''-'' # CHR ''-'' # ys" by simp
      then show ?thesis by blast
    qed
  next
    assume "\<exists>us ys. a # b # xs = us @ CHR ''-'' # CHR ''-'' # ys"
    then obtain us ys where e: "a # b # xs = us @ CHR ''-'' # CHR ''-'' # ys" by blast
    show "Contains_dd (a # b # xs)"
    proof (cases us)
      case Nil
      then show ?thesis using e by simp
    next
      case (Cons u us')
      then have "b # xs = us' @ CHR ''-'' # CHR ''-'' # ys" using e by simp
      then have "Contains_dd (b # xs)" using 1 by blast
      then show ?thesis by simp
    qed
  qed
qed (auto simp: append_eq_Cons_conv)

lemma Contains_dd_rev: "Contains_dd (rev s) = Contains_dd s"
proof -
  have "Contains_dd (rev t)" if "Contains_dd t" for t
  proof -
    from that obtain xs ys where "t = xs @ CHR ''-'' # CHR ''-'' # ys"
      by (auto simp: Contains_dd_iff)
    then have "rev t = rev ys @ CHR ''-'' # CHR ''-'' # rev xs" by simp
    then show ?thesis unfolding Contains_dd_iff by blast
  qed
  from this [of s] this [of "rev s"] show ?thesis by auto
qed

lemma Contains_dd_dropWhile: "Contains_dd (dropWhile P s) \<Longrightarrow> Contains_dd s"
proof -
  assume "Contains_dd (dropWhile P s)"
  then obtain xs ys where "dropWhile P s = xs @ CHR ''-'' # CHR ''-'' # ys"
    by (auto simp: Contains_dd_iff)
  then have "s = (takeWhile P s @ xs) @ CHR ''-'' # CHR ''-'' # ys"
    by (metis append_assoc takeWhile_dropWhile_id)
  then show ?thesis unfolding Contains_dd_iff by blast
qed

lemma Trim_no_dd: "\<not> Contains_dd s \<Longrightarrow> \<not> Contains_dd (Trim_dash s)"
  unfolding Trim_dash_def Contains_dd_rev
  by (metis Contains_dd_dropWhile Contains_dd_rev)

lemma Trim_set: "set (Trim_dash s) \<subseteq> set s"
  unfolding Trim_dash_def by (auto dest!: set_dropWhileD)

lemma last_dropWhile_keep: "dropWhile P xs \<noteq> [] \<Longrightarrow> last (dropWhile P xs) = last xs"
  by (induction xs) (auto split: if_splits)

lemma Trim_hd: "Trim_dash s \<noteq> [] \<Longrightarrow> hd (Trim_dash s) \<noteq> CHR ''-''"
proof -
  define d where "d = dropWhile (\<lambda>c. c = CHR ''-'') s"
  define e where "e = dropWhile (\<lambda>c. c = CHR ''-'') (rev d)"
  assume "Trim_dash s \<noteq> []"
  then have ne2: "e \<noteq> []" by (simp add: Trim_dash_def e_def d_def)
  have dne: "d \<noteq> []"
  proof
    assume "d = []"
    then have "e = []" by (simp add: e_def)
    with ne2 show False by contradiction
  qed
  have t: "Trim_dash s = rev e" by (simp add: Trim_dash_def e_def d_def)
  have "hd (rev e) = last e" using ne2 by (simp add: hd_rev)
  also have "\<dots> = last (rev d)" using ne2 unfolding e_def by (rule last_dropWhile_keep)
  also have "\<dots> = hd d" using dne by (simp add: last_rev)
  finally have "hd (Trim_dash s) = hd d" using t by simp
  moreover have "hd d \<noteq> CHR ''-''"
    using dne hd_dropWhile [of "\<lambda>c. c = CHR ''-''" s] unfolding d_def by blast
  ultimately show ?thesis by simp
qed

lemma Trim_last: "Trim_dash s \<noteq> [] \<Longrightarrow> last (Trim_dash s) \<noteq> CHR ''-''"
proof -
  let ?P = "\<lambda>c. c = CHR ''-''"
  assume ne: "Trim_dash s \<noteq> []"
  then have "dropWhile ?P (rev (dropWhile ?P s)) \<noteq> []" by (simp add: Trim_dash_def)
  then have "hd (dropWhile ?P (rev (dropWhile ?P s))) \<noteq> CHR ''-''"
    using hd_dropWhile [of ?P] by blast
  then show ?thesis using ne by (simp add: Trim_dash_def last_rev)
qed

lemma Trim_id: "s \<noteq> [] \<Longrightarrow> hd s \<noteq> CHR ''-'' \<Longrightarrow> last s \<noteq> CHR ''-'' \<Longrightarrow> Trim_dash s = s"
proof -
  assume a: "s \<noteq> []" "hd s \<noteq> CHR ''-''" "last s \<noteq> CHR ''-''"
  then have 1: "dropWhile (\<lambda>c. c = CHR ''-'') s = s" by (cases s) auto
  have "rev s \<noteq> []" "hd (rev s) \<noteq> CHR ''-''" using a by (auto simp: hd_rev)
  then have 2: "dropWhile (\<lambda>c. c = CHR ''-'') (rev s) = rev s" by (cases "rev s") auto
  show ?thesis by (simp add: Trim_dash_def 1 2)
qed

lemma sanitize_pre_props:
  fixes x defines "r \<equiv> Trim_dash (collapse_dashes (replacer_Replace x))"
  shows "set r \<inter> forbidden_chars = {}" "\<not> Contains_dd r"
proof -
  have "set r \<subseteq> set (replacer_Replace x)"
    unfolding r_def using Trim_set collapse_set by blast
  then show "set r \<inter> forbidden_chars = {}" using replacer_clean [of x] by blast
  show "\<not> Contains_dd r" unfolding r_def by (rule Trim_no_dd) (rule collapse_no_dd)
qed

lemma sanitize_fixed:
  assumes "set r \<inter> forbidden_chars = {}" "\<not> Contains_dd r" "r \<noteq> []"
    "hd r \<noteq> CHR ''-''" "last r \<noteq> CHR ''-''"
  shows "sanitizeName r = r"
  using assms by (simp add: sanitizeName_def replacer_id collapse_id Trim_id)

lemma proxy_clean: "set ''proxy'' \<inter> forbidden_chars = {}"
  by (simp add: forbidden_iff to_dash_def dropped_def)

lemma sanitizeName_idem: "sanitizeName (sanitizeName x) = sanitizeName x"
proof (cases "Trim_dash (collapse_dashes (replacer_Replace x)) = []")
  case True
  then have "sanitizeName x = ''proxy''" by (simp add: sanitizeName_def)
  moreover have "sanitizeName ''proxy'' = ''proxy''"
    by (rule sanitize_fixed) (simp_all add: proxy_clean del: set_simps)
  ultimately show ?thesis by simp
next
  case False
  then have e: "sanitizeName x = Trim_dash (collapse_dashes (replacer_Replace x))"
    by (simp add: sanitizeName_def)
  show ?thesis
    unfolding e using False
    by (intro sanitize_fixed sanitize_pre_props Trim_hd Trim_last)
qed

lemma sanitizeName_clean: "set (sanitizeName x) \<inter> forbidden_chars = {}"
  using sanitize_pre_props(1) [of x] proxy_clean by (simp add: sanitizeName_def Let_def)

lemma sanitizeName_nonempty: "sanitizeName x \<noteq> []"
  by (simp add: sanitizeName_def Let_def)

lemma sanitizeName_S4_first: "sanitizeName ''Home  PC_01/dev'' = ''Home-PC-01-dev''"
  by code_simp

lemma sanitizeName_S4_second: "sanitizeName ''***'' = ''proxy''"
  by code_simp

lemma sanitizeName_S4_third: "sanitizeName ''-a--b-'' = ''a-b''"
  by code_simp

text \<open>
  Claim C8. For every string \<open>x\<close>, sanitising twice is the same as sanitising once, the
  result contains none of the thirteen characters the replacer rewrites or drops (space,
  underscore, dot, colon, slash, backslash, bar, star, question mark, double quote, single
  quote, less-than, greater-than), and the result is never empty. The three literal examples
  of scenario S4 evaluate as the specification says.
\<close>

theorem sanitizeName_idempotent_clean_nonempty:
  "sanitizeName (sanitizeName x) = sanitizeName x
   \<and> set (sanitizeName x) \<inter> forbidden_chars = {}
   \<and> sanitizeName x \<noteq> []
   \<and> sanitizeName ''Home  PC_01/dev'' = ''Home-PC-01-dev''
   \<and> sanitizeName ''***'' = ''proxy''
   \<and> sanitizeName ''-a--b-'' = ''a-b''"
  by (intro conjI sanitizeName_idem sanitizeName_clean sanitizeName_nonempty
      sanitizeName_S4_first sanitizeName_S4_second sanitizeName_S4_third)

theorem sanitizeName_idempotent_clean_nonempty_witness:
  "sanitizeName (sanitizeName ''my host.lan'') = ''my-host-lan''
   \<and> set (sanitizeName ''my host.lan'') \<inter> forbidden_chars = {}
   \<and> sanitizeName ''my host.lan'' \<noteq> []"
proof -
  have "sanitizeName ''my host.lan'' = ''my-host-lan''" by code_simp
  then show ?thesis
    using sanitizeName_idempotent_clean_nonempty [of "''my host.lan''"] by simp
qed

section \<open>Tunnel engine\<close>

subsection \<open>Data model\<close>

text \<open>
  \<^verbatim>\<open>models.Tunnel\<close>: the persisted row. \<open>Deleted\<close> stands for a non-null
  \<^verbatim>\<open>DeletedAt\<close> (the model is soft-deleted); timestamps and the preloaded
  associations are left out.
\<close>

record Tunnel =
  ID :: nat
  HostID :: nat
  Name :: string
  Type :: string
  LocalAddress :: string
  LocalPort :: int
  RemoteAddress :: string
  RemotePort :: int
  Description :: string
  Status :: string
  AutoStart :: bool
  Deleted :: bool

abbreviation TunnelTypeLocalForward :: string where "TunnelTypeLocalForward \<equiv> ''local_forward''"
abbreviation TunnelTypeRemoteForward :: string where "TunnelTypeRemoteForward \<equiv> ''remote_forward''"
abbreviation TunnelTypeDynamic :: string where "TunnelTypeDynamic \<equiv> ''dynamic''"

abbreviation TunnelStatusActive :: string where "TunnelStatusActive \<equiv> ''active''"
abbreviation TunnelStatusInactive :: string where "TunnelStatusInactive \<equiv> ''inactive''"
abbreviation TunnelStatusError :: string where "TunnelStatusError \<equiv> ''error''"

abbreviation LogEventError :: string where "LogEventError \<equiv> ''error''"
abbreviation LogEventStart :: string where "LogEventStart \<equiv> ''start''"
abbreviation LogEventStop :: string where "LogEventStop \<equiv> ''stop''"

text \<open>\<^verbatim>\<open>models.ConnectionLog\<close>, without its generated id, timestamp and free-text message.\<close>

record ConnectionLog =
  TunnelID :: nat
  EventType :: string

text \<open>
  A listener is identified by what it is bound to: a local \<^verbatim>\<open>net.Listen\<close> on
  address and port, or an \<^verbatim>\<open>sshClient.Listen\<close> on the remote side of the SSH client
  dialled for a host.
\<close>

datatype listener = LocalListener string int | RemoteListener nat string int

text \<open>
  \<^verbatim>\<open>activeTunnel\<close>: the in-memory handle. The SSH client is named by the host it was
  dialled for; a nil pointer or interface is \<open>None\<close>. The context and its cancel function
  belong to the tunnel id; the start time is left out.
\<close>

record activeTunnel =
  tunnel :: Tunnel
  sshClient :: "nat option"
  listener :: "listener option"

text \<open>
  Everything the engine does to the outside world, in the order it does it: socket and SSH
  operations, the pause, and the two repository writes of the lifecycle.
\<close>

datatype effect =
    SSHDial nat
  | Listen listener
  | CloseListener listener
  | Cancel nat
  | SSHClose nat
  | Sleep nat
  | UpdateStatusRow nat string
  | AddLogRow nat string

text \<open>
  The engine state: the \<^verbatim>\<open>tunnels\<close> and \<^verbatim>\<open>connection_logs\<close> tables behind the
  repository, the \<^verbatim>\<open>activeTunnels\<close> map (as an association list with one entry per
  key, so that \<^verbatim>\<open>StopAllTunnels\<close> can enumerate it), and the effects so far.
\<close>

record engine =
  tunnels :: "Tunnel list"
  connection_logs :: "ConnectionLog list"
  activeTunnels :: "(nat \<times> activeTunnel) list"
  trace :: "effect list"

text \<open>
  What the engine cannot decide by itself: whether a local bind succeeds, whether the host
  service returns the host (lookup and decryption), whether the SSH connection can be
  created (second decryption, client configuration, dial), and whether the SSH server
  grants a remote listener.
\<close>

record env =
  listen_ok :: "string \<Rightarrow> int \<Rightarrow> bool"
  host_ok :: "nat \<Rightarrow> bool"
  ssh_ok :: "nat \<Rightarrow> bool"
  ssh_listen_ok :: "nat \<Rightarrow> string \<Rightarrow> int \<Rightarrow> bool"

datatype error =
    TunnelNameRequired
  | HostIDRequired
  | LocalPortRequired
  | RemoteAddressRequired
  | RemotePortRequired
  | InvalidTunnelType
  | LocalPortNotAvailable int
  | LocalPortInUse nat
  | RemotePortInUse nat
  | PrimaryKeyConflict
  | RecordNotFound
  | GetTunnelFailed
  | AlreadyRunning
  | NotRunning
  | GetHostFailed
  | SSHConnectionFailed
  | UnsupportedTunnelType
  | ListenFailed
  | StartTunnelFailed error
  | StopForUpdateFailed error
  | NoAvailablePort int int
  | FindPortFailed error
  | CreateTunnelFailed error

subsection \<open>Repository\<close>

text \<open>
  The tunnel repository as its gorm calls read. Queries see only rows that are not
  soft-deleted. \<^verbatim>\<open>Create\<close> assigns the next id to a row whose id is zero, refuses an
  id that is already taken, and fills the columns tagged with a default
  (\<^verbatim>\<open>local_address\<close>, \<^verbatim>\<open>status\<close>) when they are empty. \<^verbatim>\<open>Save\<close> creates
  the row when its id is zero and otherwise writes all its columns over the row of that id;
  when no row that is not soft-deleted has the id, the update touches nothing and
  \<^verbatim>\<open>Save\<close> falls back to an insert that overwrites on conflict, which fills the
  defaulted columns like \<^verbatim>\<open>Create\<close>.
\<close>

definition live :: "engine \<Rightarrow> Tunnel list" where
  "live s = filter (\<lambda>t. \<not> Deleted t) (tunnels s)"

definition repo_GetAll :: "engine \<Rightarrow> Tunnel list" where
  "repo_GetAll s = live s"

definition repo_GetByID :: "engine \<Rightarrow> nat \<Rightarrow> Tunnel option" where
  "repo_GetByID s i = find (\<lambda>t. ID t = i) (live s)"

definition repo_GetAutoStartTunnels :: "engine \<Rightarrow> Tunnel list" where
  "repo_GetAutoStartTunnels s = filter AutoStart (live s)"

definition next_id :: "engine \<Rightarrow> nat" where
  "next_id s = Suc (fold max (map ID (tunnels s)) 0)"

definition with_defaults :: "Tunnel \<Rightarrow> Tunnel" where
  "with_defaults t =
     t\<lparr>LocalAddress := (if LocalAddress t = [] then ''127.0.0.1'' else LocalAddress t),
       Status := (if Status t = [] then ''inactive'' else Status t)\<rparr>"

definition repo_Create :: "engine \<Rightarrow> Tunnel \<Rightarrow> error + (Tunnel \<times> engine)" where
  "repo_Create s t =
     (if ID t = 0 then
        (let t' = (with_defaults t)\<lparr>ID := next_id s\<rparr>
         in Inr (t', s\<lparr>tunnels := tunnels s @ [t']\<rparr>))
      else if ID t \<in> set (map ID (tunnels s)) then Inl PrimaryKeyConflict
      else Inr (with_defaults t, s\<lparr>tunnels := tunnels s @ [with_defaults t]\<rparr>))"

definition repo_Update :: "engine \<Rightarrow> Tunnel \<Rightarrow> error option \<times> engine" where
  "repo_Update s t =
     (if ID t = 0 then
        (case repo_Create s t of Inl e \<Rightarrow> (Some e, s) | Inr (_, s') \<Rightarrow> (None, s'))
      else if ID t \<in> set (map ID (tunnels s)) then
        (None,
         s\<lparr>tunnels :=
             map (\<lambda>r. if ID r = ID t then (if Deleted r then with_defaults t else t) else r)
               (tunnels s)\<rparr>)
      else (None, s\<lparr>tunnels := tunnels s @ [with_defaults t]\<rparr>))"

definition repo_Delete :: "engine \<Rightarrow> nat \<Rightarrow> engine" where
  "repo_Delete s i =
     s\<lparr>connection_logs := filter (\<lambda>l. TunnelID l \<noteq> i) (connection_logs s),
       tunnels := map (\<lambda>r. if ID r = i \<and> \<not> Deleted r then r\<lparr>Deleted := True\<rparr> else r) (tunnels s)\<rparr>"

definition repo_UpdateStatus :: "nat \<Rightarrow> string \<Rightarrow> engine \<Rightarrow> engine" where
  "repo_UpdateStatus i st s =
     s\<lparr>tunnels := map (\<lambda>r. if ID r = i \<and> \<not> Deleted r then r\<lparr>Status := st\<rparr> else r) (tunnels s),
       trace := trace s @ [UpdateStatusRow i st]\<rparr>"

definition addConnectionLog :: "nat \<Rightarrow> string \<Rightarrow> engine \<Rightarrow> engine" where
  "addConnectionLog i ev s =
     s\<lparr>connection_logs := connection_logs s @ [\<lparr>TunnelID = i, EventType = ev\<rparr>],
       trace := trace s @ [AddLogRow i ev]\<rparr>"

definition emit :: "effect list \<Rightarrow> engine \<Rightarrow> engine" where
  "emit es s = s\<lparr>trace := trace s @ es\<rparr>"

subsection \<open>Validation and port checks\<close>

definition validateTunnelConfig :: "Tunnel \<Rightarrow> error + Tunnel" where
  "validateTunnelConfig t =
     (if Name t = [] then Inl TunnelNameRequired
      else if HostID t = 0 then Inl HostIDRequired
      else if LocalPort t = 0 then Inl LocalPortRequired
      else if Type t = TunnelTypeLocalForward then
        (if RemoteAddress t = [] then Inl RemoteAddressRequired
         else if RemotePort t = 0 then Inl RemotePortRequired
         else Inr t)
      else if Type t = TunnelTypeRemoteForward then
        (let t' = (if RemoteAddress t = [] then t\<lparr>RemoteAddress := ''0.0.0.0''\<rparr> else t)
         in if RemotePort t' = 0 then Inl RemotePortRequired else Inr t')
      else if Type t = TunnelTypeDynamic then Inr t
      else Inl InvalidTunnelType)"

fun check_conflicts :: "Tunnel \<Rightarrow> Tunnel list \<Rightarrow> error option" where
  "check_conflicts t [] = None"
| "check_conflicts t (existing # rest) =
     (if ID existing = ID t then check_conflicts t rest
      else if LocalPort existing = LocalPort t \<and> LocalAddress existing = LocalAddress t
        then Some (LocalPortInUse (ID existing))
      else if Type t = TunnelTypeRemoteForward \<and> Type existing = TunnelTypeRemoteForward
          \<and> HostID existing = HostID t
          \<and> RemotePort existing = RemotePort t \<and> RemoteAddress existing = RemoteAddress t
        then Some (RemotePortInUse (ID existing))
      else check_conflicts t rest)"

definition checkPortAvailability :: "env \<Rightarrow> engine \<Rightarrow> Tunnel \<Rightarrow> error option" where
  "checkPortAvailability e s t =
     (if \<not> listen_ok e (LocalAddress t) (LocalPort t) then Some (LocalPortNotAvailable (LocalPort t))
      else check_conflicts t (repo_GetAll s))"

definition CreateTunnel :: "env \<Rightarrow> engine \<Rightarrow> Tunnel \<Rightarrow> error + (Tunnel \<times> engine)" where
  "CreateTunnel e s t =
     (case validateTunnelConfig t of
        Inl err \<Rightarrow> Inl err
      | Inr t1 \<Rightarrow>
          (case checkPortAvailability e s t1 of
             Some err \<Rightarrow> Inl err
           | None \<Rightarrow> repo_Create s (t1\<lparr>Status := TunnelStatusInactive\<rparr>)))"

function FindAvailablePort_loop :: "env \<Rightarrow> string \<Rightarrow> int \<Rightarrow> int \<Rightarrow> int option" where
  "FindAvailablePort_loop e address port endPort =
     (if port \<le> endPort then
        (if listen_ok e address port then Some port
         else FindAvailablePort_loop e address (port + 1) endPort)
      else None)"
  by pat_completeness auto
termination
  by (relation "measure (\<lambda>(e, address, port, endPort). nat (endPort + 1 - port))") auto

declare FindAvailablePort_loop.simps [simp del]

definition FindAvailablePort :: "env \<Rightarrow> int \<Rightarrow> int \<Rightarrow> string \<Rightarrow> error + int" where
  "FindAvailablePort e startPort endPort address =
     (let address' = (if address = [] then ''localhost'' else address)
      in case FindAvailablePort_loop e address' startPort endPort of
           Some port \<Rightarrow> Inr port
         | None \<Rightarrow> Inl (NoAvailablePort startPort endPort))"

definition CreateDynamicSOCKS5Tunnel ::
  "env \<Rightarrow> engine \<Rightarrow> nat \<Rightarrow> string \<Rightarrow> string \<Rightarrow> bool \<Rightarrow> error + (Tunnel \<times> engine)" where
  "CreateDynamicSOCKS5Tunnel e s hostID name description autoStart =
     (case (case FindAvailablePort e 1080 1090 ''localhost'' of
              Inr p \<Rightarrow> Inr p
            | Inl _ \<Rightarrow> FindAvailablePort e 8080 8090 ''localhost'') of
        Inl err \<Rightarrow> Inl (FindPortFailed err)
      | Inr localPort \<Rightarrow>
          (case CreateTunnel e s
                  \<lparr>ID = 0, HostID = hostID, Name = name, Type = TunnelTypeDynamic,
                   LocalAddress = ''localhost'', LocalPort = localPort,
                   RemoteAddress = [], RemotePort = 0, Description = description,
                   Status = [], AutoStart = autoStart, Deleted = False\<rparr> of
             Inl err \<Rightarrow> Inl (CreateTunnelFailed err)
           | Inr r \<Rightarrow> Inr r))"

subsection \<open>Lifecycle\<close>

text \<open>
  The three start routines bind their listener, then store it in the registry entry of the
  tunnel if there is one, then hand the listener to the accept loop (a goroutine, not
  modelled: it closes the listener itself once it observes the cancelled context).
\<close>

definition store_listener :: "nat \<Rightarrow> listener \<Rightarrow> engine \<Rightarrow> engine" where
  "store_listener i l s =
     s\<lparr>activeTunnels :=
         map (\<lambda>(k, h). if k = i then (k, h\<lparr>listener := Some l\<rparr>) else (k, h)) (activeTunnels s)\<rparr>"

definition startLocalForward :: "env \<Rightarrow> engine \<Rightarrow> Tunnel \<Rightarrow> error option \<times> engine" where
  "startLocalForward e s t =
     (if \<not> listen_ok e (LocalAddress t) (LocalPort t) then (Some ListenFailed, s)
      else (let l = LocalListener (LocalAddress t) (LocalPort t)
            in (None, store_listener (ID t) l (emit [Listen l] s))))"

definition startRemoteForward :: "env \<Rightarrow> engine \<Rightarrow> Tunnel \<Rightarrow> nat \<Rightarrow> error option \<times> engine" where
  "startRemoteForward e s t client =
     (if \<not> ssh_listen_ok e client (RemoteAddress t) (RemotePort t) then (Some ListenFailed, s)
      else (let l = RemoteListener client (RemoteAddress t) (RemotePort t)
            in (None, store_listener (ID t) l (emit [Listen l] s))))"

definition startDynamicForward :: "env \<Rightarrow> engine \<Rightarrow> Tunnel \<Rightarrow> error option \<times> engine" where
  "startDynamicForward e s t =
     (if \<not> listen_ok e (LocalAddress t) (LocalPort t) then (Some ListenFailed, s)
      else (let l = LocalListener (LocalAddress t) (LocalPort t)
            in (None, store_listener (ID t) l (emit [Listen l] s))))"

definition register :: "nat \<Rightarrow> activeTunnel \<Rightarrow> engine \<Rightarrow> engine" where
  "register i h s =
     s\<lparr>activeTunnels := (i, h) # filter (\<lambda>(k, _). k \<noteq> i) (activeTunnels s)\<rparr>"

definition unregister :: "nat \<Rightarrow> engine \<Rightarrow> engine" where
  "unregister i s = s\<lparr>activeTunnels := filter (\<lambda>(k, _). k \<noteq> i) (activeTunnels s)\<rparr>"

definition StartTunnel :: "env \<Rightarrow> engine \<Rightarrow> nat \<Rightarrow> error option \<times> engine" where
  "StartTunnel e s i =
     (case repo_GetByID s i of
        None \<Rightarrow> (Some GetTunnelFailed, s)
      | Some t \<Rightarrow>
          if map_of (activeTunnels s) i \<noteq> None then (Some AlreadyRunning, s)
          else if \<not> host_ok e (HostID t) then (Some GetHostFailed, s)
          else if \<not> ssh_ok e (HostID t) then
            (Some SSHConnectionFailed,
             repo_UpdateStatus i TunnelStatusError (addConnectionLog (ID t) LogEventError s))
          else
            (let client = HostID t;
                 s1 = emit [SSHDial client] s
             in if Type t \<noteq> TunnelTypeLocalForward \<and> Type t \<noteq> TunnelTypeRemoteForward
                    \<and> Type t \<noteq> TunnelTypeDynamic
                then (Some UnsupportedTunnelType, emit [Cancel i, SSHClose client] s1)
                else
                  (case (if Type t = TunnelTypeLocalForward then startLocalForward e s1 t
                         else if Type t = TunnelTypeRemoteForward then startRemoteForward e s1 t client
                         else startDynamicForward e s1 t) of
                     (Some err, s2) \<Rightarrow>
                       (Some (StartTunnelFailed err),
                        repo_UpdateStatus i TunnelStatusError
                          (addConnectionLog (ID t) LogEventError
                             (emit [Cancel i, SSHClose client] s2)))
                   | (None, s2) \<Rightarrow>
                       (None,
                        addConnectionLog (ID t) LogEventStart
                          (repo_UpdateStatus i TunnelStatusActive
                             (register i \<lparr>tunnel = t, sshClient = Some client, listener = None\<rparr> s2))))))"

definition StopTunnel :: "engine \<Rightarrow> nat \<Rightarrow> error option \<times> engine" where
  "StopTunnel s i =
     (case map_of (activeTunnels s) i of
        None \<Rightarrow> (Some NotRunning, s)
      | Some h \<Rightarrow>
          (let s1 = unregister i s;
               s2 = (case listener h of Some l \<Rightarrow> emit [CloseListener l] s1 | None \<Rightarrow> s1);
               s3 = emit [Cancel i] s2;
               s4 = (case sshClient h of Some c \<Rightarrow> emit [SSHClose c] s3 | None \<Rightarrow> s3);
               s5 = emit [Sleep 200] s4
           in (None, addConnectionLog i LogEventStop (repo_UpdateStatus i TunnelStatusInactive s5))))"

definition RestartTunnel :: "env \<Rightarrow> engine \<Rightarrow> nat \<Rightarrow> error option \<times> engine" where
  "RestartTunnel e s i =
     (case StopTunnel s i of
        (Some err, s1) \<Rightarrow>
          if err \<noteq> NotRunning then (Some err, s1)
          else StartTunnel e (emit [Sleep 1000] s1) i
      | (None, s1) \<Rightarrow> StartTunnel e (emit [Sleep 1000] s1) i)"

definition UpdateTunnel :: "env \<Rightarrow> engine \<Rightarrow> Tunnel \<Rightarrow> error option \<times> engine" where
  "UpdateTunnel e s t =
     (case validateTunnelConfig t of
        Inl err \<Rightarrow> (Some err, s)
      | Inr t1 \<Rightarrow>
          if map_of (activeTunnels s) (ID t1) \<noteq> None then
            (case StopTunnel s (ID t1) of
               (Some err, s1) \<Rightarrow> (Some (StopForUpdateFailed err), s1)
             | (None, s1) \<Rightarrow>
                 (case repo_Update s1 t1 of
                    (Some err, s2) \<Rightarrow> (Some err, s2)
                  | (None, s2) \<Rightarrow> StartTunnel e s2 (ID t1)))
          else repo_Update s t1)"

definition DeleteTunnel :: "engine \<Rightarrow> nat \<Rightarrow> engine" where
  "DeleteTunnel s i = repo_Delete (snd (StopTunnel s i)) i"

definition StartAutoTunnels :: "env \<Rightarrow> engine \<Rightarrow> engine" where
  "StartAutoTunnels e s =
     fold (\<lambda>t s'. snd (StartTunnel e s' (ID t))) (repo_GetAutoStartTunnels s) s"

definition StopAllTunnels :: "engine \<Rightarrow> engine" where
  "StopAllTunnels s = fold (\<lambda>i s'. snd (StopTunnel s' i)) (map fst (activeTunnels s)) s"

text \<open>
  \<^verbatim>\<open>CreateMultipleLocalForwards\<close>: one \<^verbatim>\<open>remote_forward\<close> record per service,
  created in order; a failure is collected and the batch goes on.
\<close>

record LocalServiceMapping =
  svc_Name :: string
  svc_LocalAddress :: string
  svc_LocalPort :: int
  svc_RemoteAddress :: string
  svc_RemotePort :: int
  svc_AutoStart :: bool
  svc_Description :: string

fun CreateMultipleLocalForwards ::
  "env \<Rightarrow> engine \<Rightarrow> nat \<Rightarrow> LocalServiceMapping list \<Rightarrow> (Tunnel list \<times> error list) \<times> engine" where
  "CreateMultipleLocalForwards e s hostID [] = (([], []), s)"
| "CreateMultipleLocalForwards e s hostID (service # rest) =
     (case CreateTunnel e s
             \<lparr>ID = 0, HostID = hostID, Name = svc_Name service, Type = TunnelTypeRemoteForward,
              LocalAddress = svc_LocalAddress service, LocalPort = svc_LocalPort service,
              RemoteAddress = svc_RemoteAddress service, RemotePort = svc_RemotePort service,
              Description = svc_Description service, Status = [],
              AutoStart = svc_AutoStart service, Deleted = False\<rparr> of
        Inl err \<Rightarrow>
          (case CreateMultipleLocalForwards e s hostID rest of
             ((created, errs), s') \<Rightarrow> ((created, err # errs), s'))
      | Inr (t, s1) \<Rightarrow>
          (case CreateMultipleLocalForwards e s1 hostID rest of
             ((created, errs), s') \<Rightarrow> ((t # created, errs), s')))"

text \<open>
  The calls a client of the service can make, and the states they lead to from a fresh
  engine (\<^verbatim>\<open>NewTunnelService\<close>: an empty registry over whatever the tables hold). Each
  call runs against its own environment, and here each call runs to its end before the next
  one begins; calls that overlap are the subject of a later subsection.
  \<^verbatim>\<open>StopAllTunnels\<close> ranges over a Go map, whose order is not fixed; the model stops
  the tunnels in the order of the list.
\<close>

datatype call =
    CallCreateTunnel Tunnel
  | CallCreateMultipleLocalForwards nat "LocalServiceMapping list"
  | CallCreateDynamicSOCKS5Tunnel nat string string bool
  | CallUpdateTunnel Tunnel
  | CallDeleteTunnel nat
  | CallStartTunnel nat
  | CallStopTunnel nat
  | CallRestartTunnel nat
  | CallStartAutoTunnels
  | CallStopAllTunnels

fun exec :: "env \<Rightarrow> call \<Rightarrow> engine \<Rightarrow> engine" where
  "exec e (CallCreateTunnel t) s = (case CreateTunnel e s t of Inl _ \<Rightarrow> s | Inr (_, s') \<Rightarrow> s')"
| "exec e (CallCreateMultipleLocalForwards h svcs) s = snd (CreateMultipleLocalForwards e s h svcs)"
| "exec e (CallCreateDynamicSOCKS5Tunnel h n d a) s =
     (case CreateDynamicSOCKS5Tunnel e s h n d a of Inl _ \<Rightarrow> s | Inr (_, s') \<Rightarrow> s')"
| "exec e (CallUpdateTunnel t) s = snd (UpdateTunnel e s t)"
| "exec e (CallDeleteTunnel i) s = DeleteTunnel s i"
| "exec e (CallStartTunnel i) s = snd (StartTunnel e s i)"
| "exec e (CallStopTunnel i) s = snd (StopTunnel s i)"
| "exec e (CallRestartTunnel i) s = snd (RestartTunnel e s i)"
| "exec e CallStartAutoTunnels s = StartAutoTunnels e s"
| "exec e CallStopAllTunnels s = StopAllTunnels s"

inductive reachable :: "engine \<Rightarrow> bool" where
  fresh: "activeTunnels s = [] \<Longrightarrow> reachable s"
| step: "reachable s \<Longrightarrow> reachable (exec e c s)"

subsection \<open>The listener of a registered handle\<close>

definition listeners_nil :: "engine \<Rightarrow> bool" where
  "listeners_nil s = (\<forall>(k, h) \<in> set (activeTunnels s). listener h = None)"

lemma activeTunnels_repo [simp]:
  "activeTunnels (repo_UpdateStatus i st s) = activeTunnels s"
  "activeTunnels (addConnectionLog i ev s) = activeTunnels s"
  "activeTunnels (emit es s) = activeTunnels s"
  "activeTunnels (repo_Delete s i) = activeTunnels s"
  by (simp_all add: repo_UpdateStatus_def addConnectionLog_def emit_def repo_Delete_def)

lemma activeTunnels_repo_Create:
  "repo_Create s t = Inr (t', s') \<Longrightarrow> activeTunnels s' = activeTunnels s"
  by (auto simp: repo_Create_def Let_def split: if_splits)

lemma activeTunnels_repo_Update: "activeTunnels (snd (repo_Update s t)) = activeTunnels s"
  by (auto simp: repo_Update_def dest: activeTunnels_repo_Create split: sum.splits)

lemma activeTunnels_CreateTunnel:
  "CreateTunnel e s t = Inr (t', s') \<Longrightarrow> activeTunnels s' = activeTunnels s"
  by (auto simp: CreateTunnel_def dest: activeTunnels_repo_Create split: sum.splits option.splits)

lemma activeTunnels_CreateMultiple:
  "activeTunnels (snd (CreateMultipleLocalForwards e s h svcs)) = activeTunnels s"
proof (induction svcs arbitrary: s)
  case Nil
  then show ?case by simp
next
  case (Cons service rest)
  show ?case
    using Cons.IH
    by (auto simp: split_def dest: activeTunnels_CreateTunnel split: sum.splits prod.splits)
qed

lemma activeTunnels_CreateDynamic:
  "CreateDynamicSOCKS5Tunnel e s h n d a = Inr (t', s') \<Longrightarrow> activeTunnels s' = activeTunnels s"
  by (auto simp: CreateDynamicSOCKS5Tunnel_def dest: activeTunnels_CreateTunnel split: sum.splits)

lemma store_listener_absent:
  "map_of (activeTunnels s) i = None \<Longrightarrow> activeTunnels (store_listener i l s) = activeTunnels s"
proof -
  assume "map_of (activeTunnels s) i = None"
  then have "\<forall>(k, h) \<in> set (activeTunnels s). k \<noteq> i"
    by (auto simp: map_of_eq_None_iff image_iff)
  then have "map (\<lambda>(k, h). if k = i then (k, h\<lparr>listener := Some l\<rparr>) else (k, h)) (activeTunnels s)
             = activeTunnels s"
    by (intro map_idI) auto
  then show ?thesis by (simp add: store_listener_def)
qed

lemma start_routines_absent:
  assumes "map_of (activeTunnels s) (ID t) = None"
  shows "activeTunnels (snd (startLocalForward e s t)) = activeTunnels s"
    and "activeTunnels (snd (startRemoteForward e s t c)) = activeTunnels s"
    and "activeTunnels (snd (startDynamicForward e s t)) = activeTunnels s"
  using assms
  by (simp_all add: startLocalForward_def startRemoteForward_def startDynamicForward_def
      Let_def store_listener_absent)

lemma listeners_nil_cong: "activeTunnels s' = activeTunnels s \<Longrightarrow> listeners_nil s' = listeners_nil s"
  by (simp add: listeners_nil_def)

lemma listeners_nil_register:
  "listeners_nil s \<Longrightarrow> listener h = None \<Longrightarrow> listeners_nil (register i h s)"
  by (auto simp: listeners_nil_def register_def)

lemma listeners_nil_unregister: "listeners_nil s \<Longrightarrow> listeners_nil (unregister i s)"
  by (auto simp: listeners_nil_def unregister_def)

lemma start_routine_result:
  assumes "map_of (activeTunnels s) (ID t) = None"
    and "(if Type t = TunnelTypeLocalForward then startLocalForward e s t
          else if Type t = TunnelTypeRemoteForward then startRemoteForward e s t c
          else startDynamicForward e s t) = (r, s2)"
  shows "activeTunnels s2 = activeTunnels s"
  using assms(2) start_routines_absent(1) [OF assms(1), of e]
    start_routines_absent(2) [OF assms(1), of e c] start_routines_absent(3) [OF assms(1), of e]
  by (auto split: if_splits)

lemma repo_GetByID_ID: "repo_GetByID s i = Some t \<Longrightarrow> ID t = i"
  by (auto simp: repo_GetByID_def find_Some_iff)

lemma StartTunnel_listeners_nil:
  assumes "listeners_nil s"
  shows "listeners_nil (snd (StartTunnel e s i))"
proof (cases "repo_GetByID s i")
  case None
  then show ?thesis using assms by (simp add: StartTunnel_def)
next
  case (Some t)
  note id = repo_GetByID_ID [OF Some]
  show ?thesis
  proof (cases "map_of (activeTunnels s) i = None")
    case False
    then show ?thesis using assms Some by (simp add: StartTunnel_def)
  next
    case True
    let ?s1 = "emit [SSHDial (HostID t)] s"
    obtain r s2 where run:
      "(if Type t = TunnelTypeLocalForward then startLocalForward e ?s1 t
        else if Type t = TunnelTypeRemoteForward then startRemoteForward e ?s1 t (HostID t)
        else startDynamicForward e ?s1 t) = (r, s2)"
      by (cases "(if Type t = TunnelTypeLocalForward then startLocalForward e ?s1 t
        else if Type t = TunnelTypeRemoteForward then startRemoteForward e ?s1 t (HostID t)
        else startDynamicForward e ?s1 t)") auto
    have "map_of (activeTunnels ?s1) (ID t) = None" using True id by simp
    from start_routine_result [OF this run] have a2: "activeTunnels s2 = activeTunnels s" by simp
    then have n2: "listeners_nil s2" using assms by (simp add: listeners_nil_def)
    have n3: "listeners_nil (register i \<lparr>tunnel = t, sshClient = Some (HostID t), listener = None\<rparr> s2)"
      using n2 by (rule listeners_nil_register) simp
    show ?thesis
      using assms Some True run n2 n3
      by (cases r) (simp_all add: StartTunnel_def Let_def listeners_nil_def)
  qed
qed

lemma StopTunnel_listeners_nil:
  assumes "listeners_nil s"
  shows "listeners_nil (snd (StopTunnel s i))"
  using assms listeners_nil_unregister [OF assms, of i]
  by (auto simp: StopTunnel_def Let_def listeners_nil_def split: option.splits)

lemma RestartTunnel_listeners_nil:
  "listeners_nil s \<Longrightarrow> listeners_nil (snd (RestartTunnel e s i))"
proof -
  assume a: "listeners_nil s"
  obtain r s1 where st: "StopTunnel s i = (r, s1)" by (cases "StopTunnel s i") auto
  have n1: "listeners_nil s1" using StopTunnel_listeners_nil [OF a, of i] st by simp
  then have "listeners_nil (emit [Sleep 1000] s1)" by (simp add: listeners_nil_def)
  from StartTunnel_listeners_nil [OF this, of e i] n1 show ?thesis
    by (simp add: RestartTunnel_def st split: option.splits)
qed

lemma UpdateTunnel_listeners_nil:
  "listeners_nil s \<Longrightarrow> listeners_nil (snd (UpdateTunnel e s t))"
proof -
  assume a: "listeners_nil s"
  show ?thesis
  proof (cases "validateTunnelConfig t")
    case (Inl err)
    then show ?thesis using a by (simp add: UpdateTunnel_def)
  next
    case (Inr t1)
    obtain r s1 where st: "StopTunnel s (ID t1) = (r, s1)" by (cases "StopTunnel s (ID t1)") auto
    have n1: "listeners_nil s1" using StopTunnel_listeners_nil [OF a, of "ID t1"] st by simp
    obtain r2 s2 where up: "repo_Update s1 t1 = (r2, s2)" by (cases "repo_Update s1 t1") auto
    have "activeTunnels s2 = activeTunnels s1" using activeTunnels_repo_Update [of s1 t1] up by simp
    then have n2: "listeners_nil s2" using n1 by (simp add: listeners_nil_def)
    have n3: "listeners_nil (snd (repo_Update s t1))"
      using a activeTunnels_repo_Update [of s t1] by (simp add: listeners_nil_def)
    show ?thesis
      using Inr st up n1 n2 n3 StartTunnel_listeners_nil [OF n2, of e "ID t1"]
      by (simp add: UpdateTunnel_def split: option.splits)
  qed
qed

lemma fold_listeners_nil:
  assumes "\<And>x s. listeners_nil s \<Longrightarrow> listeners_nil (f x s)"
  shows "listeners_nil s \<Longrightarrow> listeners_nil (fold f xs s)"
  using assms by (induction xs arbitrary: s) simp_all

lemma exec_listeners_nil: "listeners_nil s \<Longrightarrow> listeners_nil (exec e c s)"
proof (cases c)
  case (CallCreateTunnel t)
  assume "listeners_nil s"
  then show ?thesis
    using CallCreateTunnel
    by (auto simp: listeners_nil_def dest!: activeTunnels_CreateTunnel split: sum.splits)
next
  case (CallCreateMultipleLocalForwards h svcs)
  assume "listeners_nil s"
  then show ?thesis
    using CallCreateMultipleLocalForwards activeTunnels_CreateMultiple [of e s h svcs]
    by (simp add: listeners_nil_def)
next
  case (CallCreateDynamicSOCKS5Tunnel h n d a)
  assume "listeners_nil s"
  then show ?thesis
    using CallCreateDynamicSOCKS5Tunnel
    by (auto simp: listeners_nil_def dest!: activeTunnels_CreateDynamic split: sum.splits)
next
  case (CallUpdateTunnel t)
  assume "listeners_nil s"
  then show ?thesis using CallUpdateTunnel by (simp add: UpdateTunnel_listeners_nil)
next
  case (CallDeleteTunnel i)
  assume "listeners_nil s"
  from StopTunnel_listeners_nil [OF this, of i] show ?thesis
    using CallDeleteTunnel by (simp add: DeleteTunnel_def listeners_nil_def)
next
  case (CallStartTunnel i)
  assume "listeners_nil s"
  then show ?thesis using CallStartTunnel by (simp add: StartTunnel_listeners_nil)
next
  case (CallStopTunnel i)
  assume "listeners_nil s"
  then show ?thesis using CallStopTunnel by (simp add: StopTunnel_listeners_nil)
next
  case (CallRestartTunnel i)
  assume "listeners_nil s"
  then show ?thesis using CallRestartTunnel by (simp add: RestartTunnel_listeners_nil)
next
  case CallStartAutoTunnels
  assume "listeners_nil s"
  then show ?thesis
    using CallStartAutoTunnels
    by (simp add: StartAutoTunnels_def fold_listeners_nil StartTunnel_listeners_nil)
next
  case CallStopAllTunnels
  assume "listeners_nil s"
  then show ?thesis
    using CallStopAllTunnels
    by (simp add: StopAllTunnels_def fold_listeners_nil StopTunnel_listeners_nil)
qed

lemma reachable_listeners_nil: "reachable s \<Longrightarrow> listeners_nil s"
proof (induction rule: reachable.induct)
  case (fresh s)
  then show ?case by (simp add: listeners_nil_def)
next
  case (step s e c)
  then show ?case by (simp add: exec_listeners_nil)
qed

definition env_all_ok :: env where
  "env_all_ok = \<lparr>listen_ok = (\<lambda>_ _. True), host_ok = (\<lambda>_. True), ssh_ok = (\<lambda>_. True),
     ssh_listen_ok = (\<lambda>_ _ _. True)\<rparr>"

definition tunnel_S6 :: Tunnel where
  "tunnel_S6 = \<lparr>ID = 1, HostID = 7, Name = ''T'', Type = TunnelTypeLocalForward,
     LocalAddress = ''127.0.0.1'', LocalPort = 9999, RemoteAddress = ''10.0.0.5'', RemotePort = 80,
     Description = [], Status = TunnelStatusInactive, AutoStart = False, Deleted = False\<rparr>"

definition engine_S6 :: engine where
  "engine_S6 = \<lparr>tunnels = [tunnel_S6], connection_logs = [], activeTunnels = [], trace = []\<rparr>"

lemma started_S6:
  "StartTunnel env_all_ok engine_S6 1 =
     (None,
      \<lparr>tunnels = [tunnel_S6\<lparr>Status := TunnelStatusActive\<rparr>],
       connection_logs = [\<lparr>TunnelID = 1, EventType = LogEventStart\<rparr>],
       activeTunnels = [(1, \<lparr>tunnel = tunnel_S6, sshClient = Some 7, listener = None\<rparr>)],
       trace = [SSHDial 7, Listen (LocalListener ''127.0.0.1'' 9999),
                UpdateStatusRow 1 TunnelStatusActive, AddLogRow 1 LogEventStart]\<rparr>)"
  by (simp add: StartTunnel_def repo_GetByID_def live_def engine_S6_def tunnel_S6_def env_all_ok_def
      startLocalForward_def store_listener_def emit_def register_def repo_UpdateStatus_def
      addConnectionLog_def Let_def)

lemma StopTunnel_not_running:
  "map_of (activeTunnels s) i = None \<Longrightarrow> StopTunnel s i = (Some NotRunning, s)"
  by (simp add: StopTunnel_def)

lemma StopTunnel_reachable_trace:
  assumes "reachable s" and "map_of (activeTunnels s) i = Some h"
  shows "fst (StopTunnel s i) = None
     \<and> trace (snd (StopTunnel s i)) =
         trace s @ [Cancel i] @ (case sshClient h of Some c \<Rightarrow> [SSHClose c] | None \<Rightarrow> [])
           @ [Sleep 200, UpdateStatusRow i TunnelStatusInactive, AddLogRow i LogEventStop]"
proof -
  have "(i, h) \<in> set (activeTunnels s)" using assms(2) by (rule map_of_SomeD)
  then have "listener h = None"
    using reachable_listeners_nil [OF assms(1)] by (auto simp: listeners_nil_def)
  then show ?thesis
    using assms(2)
    by (simp add: StopTunnel_def Let_def emit_def unregister_def repo_UpdateStatus_def
        addConnectionLog_def split: option.splits)
qed

text \<open>
  Claim C1. A successful \<open>stop(id)\<close> is specified to close the accept listener first, then
  cancel the context, close the SSH client, pause 200 ms, set the status to inactive and log
  a \<open>stop\<close> event; a stop without a registered handle fails. Evaluated on the lifecycle
  scenario (a local forward on 127.0.0.1:9999, started and then stopped), the engine emits
  every step but the first: the listener opened by the start is never closed by the stop,
  because the handle in the registry carries no listener. The stop of a tunnel that was
  never started returns the not-running error and changes nothing.
\<close>

theorem StopTunnel_skips_listener_close:
  "StopTunnel (snd (StartTunnel env_all_ok engine_S6 1)) 1 =
     (None,
      \<lparr>tunnels = [tunnel_S6\<lparr>Status := TunnelStatusInactive\<rparr>],
       connection_logs = [\<lparr>TunnelID = 1, EventType = LogEventStart\<rparr>,
                          \<lparr>TunnelID = 1, EventType = LogEventStop\<rparr>],
       activeTunnels = [],
       trace = [SSHDial 7, Listen (LocalListener ''127.0.0.1'' 9999),
                UpdateStatusRow 1 TunnelStatusActive, AddLogRow 1 LogEventStart,
                Cancel 1, SSHClose 7, Sleep 200,
                UpdateStatusRow 1 TunnelStatusInactive, AddLogRow 1 LogEventStop]\<rparr>)
   \<and> StopTunnel engine_S6 1 = (Some NotRunning, engine_S6)"
  unfolding started_S6
  by (simp add: StopTunnel_def Let_def emit_def unregister_def repo_UpdateStatus_def
      addConnectionLog_def tunnel_S6_def engine_S6_def)

subsection \<open>Starts that overlap\<close>

text \<open>
  \<^verbatim>\<open>StartTunnel\<close> holds the mutex for three short sections only: the already-running
  check (read lock), the conditional store at the end of the start routine, and the
  insertion of the handle. Between them another call can run. A start that has passed its
  check is in flight, with the tunnel row it has read, until it fails or registers: first
  checked, then bound.
\<close>

datatype in_flight = Checked Tunnel | Bound Tunnel

fun in_flight_id :: "in_flight \<Rightarrow> nat" where
  "in_flight_id (Checked t) = ID t"
| "in_flight_id (Bound t) = ID t"

text \<open>
  \<^verbatim>\<open>StartTunnel\<close> cut at these points: \<open>start_check\<close> is everything up to the SSH
  connection, \<open>start_run\<close> the switch over the kind with the start routine and the
  handling of its failure, \<open>start_register\<close> the insertion of the handle with the
  bookkeeping of a success. Run back to back they are \<^verbatim>\<open>StartTunnel\<close>
  (\<open>StartTunnel_phases\<close> below).
\<close>

definition start_check :: "env \<Rightarrow> engine \<Rightarrow> nat \<Rightarrow> (error \<times> engine) + (Tunnel \<times> engine)" where
  "start_check e s i =
     (case repo_GetByID s i of
        None \<Rightarrow> Inl (GetTunnelFailed, s)
      | Some t \<Rightarrow>
          if map_of (activeTunnels s) i \<noteq> None then Inl (AlreadyRunning, s)
          else if \<not> host_ok e (HostID t) then Inl (GetHostFailed, s)
          else if \<not> ssh_ok e (HostID t) then
            Inl (SSHConnectionFailed,
                 repo_UpdateStatus i TunnelStatusError (addConnectionLog (ID t) LogEventError s))
          else Inr (t, emit [SSHDial (HostID t)] s))"

definition start_run :: "env \<Rightarrow> engine \<Rightarrow> Tunnel \<Rightarrow> error option \<times> engine" where
  "start_run e s1 t =
     (let client = HostID t
      in if Type t \<noteq> TunnelTypeLocalForward \<and> Type t \<noteq> TunnelTypeRemoteForward
             \<and> Type t \<noteq> TunnelTypeDynamic
         then (Some UnsupportedTunnelType, emit [Cancel (ID t), SSHClose client] s1)
         else
           (case (if Type t = TunnelTypeLocalForward then startLocalForward e s1 t
                  else if Type t = TunnelTypeRemoteForward then startRemoteForward e s1 t client
                  else startDynamicForward e s1 t) of
              (Some err, s2) \<Rightarrow>
                (Some (StartTunnelFailed err),
                 repo_UpdateStatus (ID t) TunnelStatusError
                   (addConnectionLog (ID t) LogEventError
                      (emit [Cancel (ID t), SSHClose client] s2)))
            | (None, s2) \<Rightarrow> (None, s2)))"

definition start_register :: "engine \<Rightarrow> Tunnel \<Rightarrow> engine" where
  "start_register s2 t =
     addConnectionLog (ID t) LogEventStart
       (repo_UpdateStatus (ID t) TunnelStatusActive
          (register (ID t) \<lparr>tunnel = t, sshClient = Some (HostID t), listener = None\<rparr> s2))"

text \<open>
  The states the engine reaches when starts interleave at these points with one another and
  with the other calls, together with the starts in flight. A step that leaves the registry
  alone is \<open>other\<close>: the repository writes, the log, the calls that create, update or
  delete rows. \<^verbatim>\<open>StopTunnel\<close> looks up and deletes the handle in one locked section, so a
  stop is one step. With \<open>overlap\<close> false, a start passes its check only while no start
  of the same tunnel is in flight; with \<open>overlap\<close> true there is no such restriction.
  A call that stops and starts (a restart, the update of a running tunnel, the automatic
  start) is a sequence of these steps, so every state of \<open>reachable\<close> is one of
  these, with nothing in flight (\<open>reachable_interleaved\<close> below).
\<close>

inductive interleaved :: "bool \<Rightarrow> engine \<Rightarrow> in_flight list \<Rightarrow> bool" for overlap :: bool where
  fresh: "activeTunnels s = [] \<Longrightarrow> interleaved overlap s []"
| other: "interleaved overlap s fl \<Longrightarrow> activeTunnels s' = activeTunnels s \<Longrightarrow>
          interleaved overlap s' fl"
| stop: "interleaved overlap s fl \<Longrightarrow> interleaved overlap (snd (StopTunnel s i)) fl"
| check: "interleaved overlap s fl \<Longrightarrow> start_check e s i = Inr (t, s1) \<Longrightarrow>
          overlap \<or> i \<notin> in_flight_id ` set fl \<Longrightarrow>
          interleaved overlap s1 (Checked t # fl)"
| run: "interleaved overlap s fl \<Longrightarrow> Checked t \<in> set fl \<Longrightarrow> start_run e s t = (r, s2) \<Longrightarrow>
        interleaved overlap s2
          ((case r of None \<Rightarrow> [Bound t] | Some err \<Rightarrow> []) @ remove1 (Checked t) fl)"
| register: "interleaved overlap s fl \<Longrightarrow> Bound t \<in> set fl \<Longrightarrow>
             interleaved overlap (start_register s t) (remove1 (Bound t) fl)"

lemma StartTunnel_phases:
  "StartTunnel e s i =
     (case start_check e s i of
        Inl (err, s') \<Rightarrow> (Some err, s')
      | Inr (t, s1) \<Rightarrow>
          (case start_run e s1 t of
             (Some err, s2) \<Rightarrow> (Some err, s2)
           | (None, s2) \<Rightarrow> (None, start_register s2 t)))"
proof (cases "repo_GetByID s i")
  case None
  then show ?thesis by (simp add: StartTunnel_def start_check_def)
next
  case (Some t)
  note id = repo_GetByID_ID [OF Some]
  show ?thesis
    unfolding StartTunnel_def start_check_def start_run_def start_register_def Let_def Some id
    by (simp add: id split: prod.splits option.splits)
qed

lemma start_check_Inr:
  assumes "start_check e s i = Inr (t, s1)"
  shows "ID t = i" "map_of (activeTunnels s) i = None" "activeTunnels s1 = activeTunnels s"
  using assms
  by (auto simp: start_check_def dest: repo_GetByID_ID split: option.splits if_splits)

lemma start_check_Inl:
  "start_check e s i = Inl (err, s') \<Longrightarrow> activeTunnels s' = activeTunnels s"
  by (auto simp: start_check_def split: option.splits if_splits)

lemma start_run_absent:
  assumes "map_of (activeTunnels s) (ID t) = None" and "start_run e s t = (r, s2)"
  shows "activeTunnels s2 = activeTunnels s"
proof -
  obtain r1 s1 where run:
    "(if Type t = TunnelTypeLocalForward then startLocalForward e s t
      else if Type t = TunnelTypeRemoteForward then startRemoteForward e s t (HostID t)
      else startDynamicForward e s t) = (r1, s1)"
    by (cases "(if Type t = TunnelTypeLocalForward then startLocalForward e s t
      else if Type t = TunnelTypeRemoteForward then startRemoteForward e s t (HostID t)
      else startDynamicForward e s t)") auto
  note a = start_routine_result [OF assms(1) run]
  show ?thesis
    using assms(2) a unfolding start_run_def Let_def run
    by (cases r1) (auto split: if_splits)
qed

lemma remove1_distinct_map:
  "distinct (map f xs) \<Longrightarrow> x \<in> set xs \<Longrightarrow>
   distinct (map f (remove1 x xs)) \<and> f x \<notin> f ` set (remove1 x xs)"
proof (induction xs)
  case Nil
  then show ?case by simp
next
  case (Cons y ys)
  show ?case
  proof (cases "x = y")
    case True
    then show ?thesis using Cons.prems by simp
  next
    case False
    then have "x \<in> set ys" using Cons.prems by simp
    from Cons.IH [OF _ this] Cons.prems have
      "distinct (map f (remove1 x ys)) \<and> f x \<notin> f ` set (remove1 x ys)" by simp
    moreover have "f y \<notin> f ` set (remove1 x ys)"
      using Cons.prems(1) set_remove1_subset [of x ys] by auto
    moreover have "f x \<noteq> f y"
    proof
      assume "f x = f y"
      moreover have "f x \<in> f ` set ys" using \<open>x \<in> set ys\<close> by (rule imageI)
      ultimately show False using Cons.prems(1) by simp
    qed
    ultimately show ?thesis using False by simp
  qed
qed

lemma map_of_filter_absent:
  "map_of al j = None \<Longrightarrow> map_of (filter (\<lambda>(k, _). k \<noteq> i) al) j = None"
  by (induction al) (auto split: if_splits)

lemma StopTunnel_absent:
  "map_of (activeTunnels s) j = None \<Longrightarrow> map_of (activeTunnels (snd (StopTunnel s i))) j = None"
  by (auto simp: StopTunnel_def Let_def unregister_def map_of_filter_absent split: option.splits)

lemma start_register_registry:
  "activeTunnels (start_register s t) =
     (ID t, \<lparr>tunnel = t, sshClient = Some (HostID t), listener = None\<rparr>)
       # filter (\<lambda>(k, _). k \<noteq> ID t) (activeTunnels s)"
  by (simp add: start_register_def register_def)

definition no_overlap_inv :: "engine \<Rightarrow> in_flight list \<Rightarrow> bool" where
  "no_overlap_inv s fl =
     (listeners_nil s
      \<and> (\<forall>f \<in> set fl. map_of (activeTunnels s) (in_flight_id f) = None)
      \<and> distinct (map in_flight_id fl))"

lemma interleaved_no_overlap_inv:
  assumes "interleaved False s fl"
  shows "no_overlap_inv s fl"
  using assms
proof (induction s fl rule: interleaved.induct)
  case (fresh s)
  then show ?case by (simp add: no_overlap_inv_def listeners_nil_def)
next
  case (other s fl s')
  then show ?case by (simp add: no_overlap_inv_def listeners_nil_def)
next
  case (stop s fl i)
  then show ?case
    by (simp add: no_overlap_inv_def StopTunnel_listeners_nil StopTunnel_absent)
next
  case (check s fl e i t s1)
  note c = start_check_Inr [OF check.hyps(2)]
  show ?case
    using check.IH check.hyps(3) c
    by (simp add: no_overlap_inv_def listeners_nil_def)
next
  case (run s fl t e r s2)
  have absent: "map_of (activeTunnels s) (ID t) = None"
    using run.IH run.hyps(2) by (force simp: no_overlap_inv_def)
  note a = start_run_absent [OF absent run.hyps(3)]
  have d: "distinct (map in_flight_id fl)" using run.IH by (simp add: no_overlap_inv_def)
  note rm = remove1_distinct_map [OF d run.hyps(2)]
  have sub: "set (remove1 (Checked t) fl) \<subseteq> set fl" by (rule set_remove1_subset)
  have rest: "\<forall>f \<in> set (remove1 (Checked t) fl). map_of (activeTunnels s) (in_flight_id f) = None"
    using run.IH sub by (auto simp: no_overlap_inv_def)
  show ?case
    using run.IH a absent rm rest
    by (cases r) (simp_all add: no_overlap_inv_def listeners_nil_def)
next
  case (register s fl t)
  have d: "distinct (map in_flight_id fl)" using register.IH by (simp add: no_overlap_inv_def)
  note rm = remove1_distinct_map [OF d register.hyps(2)]
  have sub: "set (remove1 (Bound t) fl) \<subseteq> set fl" by (rule set_remove1_subset)
  have n: "listeners_nil (start_register s t)"
    using register.IH
    by (auto simp: no_overlap_inv_def listeners_nil_def start_register_registry)
  have rest: "map_of (activeTunnels (start_register s t)) (in_flight_id f) = None"
    if "f \<in> set (remove1 (Bound t) fl)" for f
  proof -
    have "in_flight_id f \<noteq> ID t" using rm that by force
    moreover have "map_of (activeTunnels s) (in_flight_id f) = None"
      using register.IH sub that by (auto simp: no_overlap_inv_def)
    ultimately show ?thesis
      by (simp add: start_register_registry map_of_filter_absent)
  qed
  show ?case using n rest rm by (simp add: no_overlap_inv_def)
qed

lemma StartTunnel_interleaved:
  assumes "interleaved ov s []"
  shows "interleaved ov (snd (StartTunnel e s i)) []"
proof (cases "start_check e s i")
  case (Inl x)
  obtain err s' where x: "x = (err, s')" by (cases x)
  have "activeTunnels s' = activeTunnels s" using Inl x by (simp add: start_check_Inl)
  from interleaved.other [OF assms this] show ?thesis
    by (simp add: StartTunnel_phases Inl x)
next
  case (Inr y)
  obtain t s1 where y: "y = (t, s1)" by (cases y)
  have c: "start_check e s i = Inr (t, s1)" using Inr y by simp
  have i1: "interleaved ov s1 [Checked t]"
    by (rule interleaved.check [OF assms c]) simp
  obtain r s2 where run: "start_run e s1 t = (r, s2)" by (cases "start_run e s1 t")
  have i2: "interleaved ov s2 ((case r of None \<Rightarrow> [Bound t] | Some err \<Rightarrow> []) @ remove1 (Checked t) [Checked t])"
    by (rule interleaved.run [OF i1 _ run]) simp
  show ?thesis
  proof (cases r)
    case None
    then have "interleaved ov s2 [Bound t]" using i2 by simp
    from interleaved.register [OF this, of t] have "interleaved ov (start_register s2 t) []" by simp
    then show ?thesis by (simp add: StartTunnel_phases c run None)
  next
    case (Some err)
    then have "interleaved ov s2 []" using i2 by simp
    then show ?thesis by (simp add: StartTunnel_phases c run Some)
  qed
qed

lemma fold_interleaved:
  assumes "\<And>x s. interleaved ov s [] \<Longrightarrow> interleaved ov (f x s) []"
  shows "interleaved ov s [] \<Longrightarrow> interleaved ov (fold f xs s) []"
  using assms by (induction xs arbitrary: s) simp_all

lemma UpdateTunnel_interleaved:
  assumes "interleaved ov s []"
  shows "interleaved ov (snd (UpdateTunnel e s t)) []"
proof (cases "validateTunnelConfig t")
  case (Inl err)
  then show ?thesis using assms by (simp add: UpdateTunnel_def)
next
  case (Inr t1)
  obtain r s1 where st: "StopTunnel s (ID t1) = (r, s1)" by (cases "StopTunnel s (ID t1)")
  have i1: "interleaved ov s1 []" using interleaved.stop [OF assms, of "ID t1"] st by simp
  obtain r2 s2 where up: "repo_Update s1 t1 = (r2, s2)" by (cases "repo_Update s1 t1")
  have "activeTunnels s2 = activeTunnels s1" using activeTunnels_repo_Update [of s1 t1] up by simp
  from interleaved.other [OF i1 this] have i2: "interleaved ov s2 []" .
  have i3: "interleaved ov (snd (repo_Update s t1)) []"
    by (rule interleaved.other [OF assms]) (rule activeTunnels_repo_Update)
  show ?thesis
    using Inr st up i1 i2 i3 StartTunnel_interleaved [OF i2, of e "ID t1"]
    by (simp add: UpdateTunnel_def split: option.splits)
qed

lemma RestartTunnel_interleaved:
  assumes "interleaved ov s []"
  shows "interleaved ov (snd (RestartTunnel e s i)) []"
proof -
  obtain r s1 where st: "StopTunnel s i = (r, s1)" by (cases "StopTunnel s i")
  have i1: "interleaved ov s1 []" using interleaved.stop [OF assms, of i] st by simp
  have "interleaved ov (emit [Sleep 1000] s1) []" by (rule interleaved.other [OF i1]) simp
  from StartTunnel_interleaved [OF this, of e i] i1 show ?thesis
    by (simp add: RestartTunnel_def st split: option.splits)
qed

lemma exec_interleaved:
  assumes "interleaved ov s []"
  shows "interleaved ov (exec e c s) []"
proof (cases c)
  case (CallCreateTunnel t)
  have "activeTunnels (exec e c s) = activeTunnels s"
    using CallCreateTunnel by (auto dest!: activeTunnels_CreateTunnel split: sum.splits)
  then show ?thesis by (rule interleaved.other [OF assms])
next
  case (CallCreateMultipleLocalForwards h svcs)
  have "activeTunnels (exec e c s) = activeTunnels s"
    using CallCreateMultipleLocalForwards by (simp add: activeTunnels_CreateMultiple)
  then show ?thesis by (rule interleaved.other [OF assms])
next
  case (CallCreateDynamicSOCKS5Tunnel h n d a)
  have "activeTunnels (exec e c s) = activeTunnels s"
    using CallCreateDynamicSOCKS5Tunnel
    by (auto dest!: activeTunnels_CreateDynamic split: sum.splits)
  then show ?thesis by (rule interleaved.other [OF assms])
next
  case (CallUpdateTunnel t)
  then show ?thesis using UpdateTunnel_interleaved [OF assms] by simp
next
  case (CallDeleteTunnel i)
  have "interleaved ov (repo_Delete (snd (StopTunnel s i)) i) []"
    by (rule interleaved.other [OF interleaved.stop [OF assms]]) simp
  then show ?thesis using CallDeleteTunnel by (simp add: DeleteTunnel_def)
next
  case (CallStartTunnel i)
  then show ?thesis using StartTunnel_interleaved [OF assms] by simp
next
  case (CallStopTunnel i)
  then show ?thesis using interleaved.stop [OF assms] by simp
next
  case (CallRestartTunnel i)
  then show ?thesis using RestartTunnel_interleaved [OF assms] by simp
next
  case CallStartAutoTunnels
  have "interleaved ov (fold (\<lambda>t s'. snd (StartTunnel e s' (ID t))) (repo_GetAutoStartTunnels s) s) []"
    by (rule fold_interleaved [OF _ assms]) (rule StartTunnel_interleaved)
  then show ?thesis using CallStartAutoTunnels by (simp add: StartAutoTunnels_def)
next
  case CallStopAllTunnels
  have "interleaved ov (fold (\<lambda>i s'. snd (StopTunnel s' i)) (map fst (activeTunnels s)) s) []"
    by (rule fold_interleaved [OF _ assms]) (rule interleaved.stop)
  then show ?thesis using CallStopAllTunnels by (simp add: StopAllTunnels_def)
qed

lemma reachable_interleaved: "reachable s \<Longrightarrow> interleaved ov s []"
proof (induction rule: reachable.induct)
  case (fresh s)
  then show ?case by (rule interleaved.fresh)
next
  case (step s e c)
  from step.IH show ?case by (rule exec_interleaved)
qed

text \<open>
  Claim C10, as amended. In every state the engine reaches, the states between the locked
  sections of a start included, the listener field of every handle in the active-tunnels
  registry is nil, provided that no start of a tunnel passes its already-running check
  while another start of the same tunnel is in flight (between its check and its
  registration or failure): the start routine stores the listener only into an entry that
  exists, a start runs its routine only after finding no entry, and the handle is inserted
  afterwards without a listener.
\<close>

theorem registry_listener_nil_without_overlap:
  assumes "interleaved False s fl" and "(k, h) \<in> set (activeTunnels s)"
  shows "listener h = None"
  using interleaved_no_overlap_inv [OF assms(1)] assms(2)
  by (auto simp: no_overlap_inv_def listeners_nil_def)

theorem registry_listener_nil_without_overlap_witness:
  "interleaved False (snd (StartTunnel env_all_ok engine_S6 1)) []
   \<and> (1, \<lparr>tunnel = tunnel_S6, sshClient = Some 7, listener = None\<rparr>)
        \<in> set (activeTunnels (snd (StartTunnel env_all_ok engine_S6 1)))
   \<and> listener (snd (hd (activeTunnels (snd (StartTunnel env_all_ok engine_S6 1))))) = None"
proof -
  let ?s = "snd (StartTunnel env_all_ok engine_S6 1)"
  have "interleaved False engine_S6 []"
    by (rule interleaved.fresh) (simp add: engine_S6_def)
  then have r: "interleaved False ?s []" by (rule StartTunnel_interleaved)
  have m: "activeTunnels ?s = [(1, \<lparr>tunnel = tunnel_S6, sshClient = Some 7, listener = None\<rparr>)]"
    unfolding started_S6 by simp
  then have "(1, snd (hd (activeTunnels ?s))) \<in> set (activeTunnels ?s)" by simp
  from registry_listener_nil_without_overlap [OF r this] r m show ?thesis by simp
qed

text \<open>A port edit between two overlapping starts of tunnel 1, step by step.\<close>

definition tunnel_moved :: Tunnel where
  "tunnel_moved = tunnel_S6\<lparr>LocalPort := 9998\<rparr>"

definition overlap_1 :: engine where
  "overlap_1 = emit [SSHDial 7] engine_S6"

definition overlap_2 :: engine where
  "overlap_2 = overlap_1\<lparr>tunnels := [tunnel_moved]\<rparr>"

definition overlap_3 :: engine where
  "overlap_3 = emit [SSHDial 7] overlap_2"

definition overlap_4 :: engine where
  "overlap_4 = emit [Listen (LocalListener ''127.0.0.1'' 9999)] overlap_3"

definition overlap_5 :: engine where
  "overlap_5 = start_register overlap_4 tunnel_S6"

definition overlap_6 :: engine where
  "overlap_6 =
     store_listener 1 (LocalListener ''127.0.0.1'' 9998)
       (emit [Listen (LocalListener ''127.0.0.1'' 9998)] overlap_5)"

lemma overlap_steps:
  "start_check env_all_ok engine_S6 1 = Inr (tunnel_S6, overlap_1)"
  "UpdateTunnel env_all_ok overlap_1 tunnel_moved = (None, overlap_2)"
  "start_check env_all_ok overlap_2 1 = Inr (tunnel_moved, overlap_3)"
  "start_run env_all_ok overlap_3 tunnel_S6 = (None, overlap_4)"
  "start_run env_all_ok overlap_5 tunnel_moved = (None, overlap_6)"
  "activeTunnels overlap_6 =
     [(1, \<lparr>tunnel = tunnel_S6, sshClient = Some 7,
           listener = Some (LocalListener ''127.0.0.1'' 9998)\<rparr>)]"
  by (simp_all add: start_check_def start_run_def start_register_def UpdateTunnel_def
      validateTunnelConfig_def repo_Update_def repo_GetByID_def live_def
      overlap_1_def overlap_2_def overlap_3_def overlap_4_def overlap_5_def overlap_6_def
      tunnel_moved_def tunnel_S6_def engine_S6_def env_all_ok_def
      startLocalForward_def store_listener_def emit_def register_def repo_UpdateStatus_def
      addConnectionLog_def Let_def)

text \<open>
  Claim C10 as stated fails when two starts of one tunnel overlap. Tunnel 1 forwards
  127.0.0.1:9999. A first start passes its check; the local port of the tunnel is updated to
  9998 (the tunnel is not running yet, so the update is only saved); a second start passes
  its check, reading the new row; the first start binds 9999 and registers its handle; the
  start routine of the second binds 9998, finds the entry and stores its listener in it.
  A handle in the registry now holds a listener.
\<close>

theorem StartTunnel_overlap_stores_listener_counterexample:
  "start_check env_all_ok engine_S6 1 = Inr (tunnel_S6, overlap_1)
   \<and> UpdateTunnel env_all_ok overlap_1 tunnel_moved = (None, overlap_2)
   \<and> start_check env_all_ok overlap_2 1 = Inr (tunnel_moved, overlap_3)
   \<and> start_run env_all_ok overlap_3 tunnel_S6 = (None, overlap_4)
   \<and> start_register overlap_4 tunnel_S6 = overlap_5
   \<and> start_run env_all_ok overlap_5 tunnel_moved = (None, overlap_6)
   \<and> interleaved True overlap_6 [Bound tunnel_moved]
   \<and> activeTunnels overlap_6 =
       [(1, \<lparr>tunnel = tunnel_S6, sshClient = Some 7,
             listener = Some (LocalListener ''127.0.0.1'' 9998)\<rparr>)]"
proof -
  have i0: "interleaved True engine_S6 []"
    by (rule interleaved.fresh) (simp add: engine_S6_def)
  have i1: "interleaved True overlap_1 [Checked tunnel_S6]"
    by (rule interleaved.check [OF i0 overlap_steps(1)]) simp
  have "activeTunnels overlap_2 = activeTunnels overlap_1" by (simp add: overlap_2_def)
  from interleaved.other [OF i1 this]
  have i2: "interleaved True overlap_2 [Checked tunnel_S6]" .
  have i3: "interleaved True overlap_3 [Checked tunnel_moved, Checked tunnel_S6]"
    by (rule interleaved.check [OF i2 overlap_steps(3)]) simp
  have "Checked tunnel_S6 \<in> set [Checked tunnel_moved, Checked tunnel_S6]" by simp
  from interleaved.run [OF i3 this overlap_steps(4)]
  have i4: "interleaved True overlap_4 [Bound tunnel_S6, Checked tunnel_moved]"
    by (simp add: tunnel_moved_def tunnel_S6_def)
  from interleaved.register [OF i4, of tunnel_S6]
  have i5: "interleaved True overlap_5 [Checked tunnel_moved]"
    by (simp add: overlap_5_def)
  have "Checked tunnel_moved \<in> set [Checked tunnel_moved]" by simp
  from interleaved.run [OF i5 this overlap_steps(5)]
  have i6: "interleaved True overlap_6 [Bound tunnel_moved]" by simp
  show ?thesis using overlap_steps i6 by (simp add: overlap_5_def)
qed

subsection \<open>What a start leaves behind\<close>



lemma repo_GetByID_simps [simp]:
  "repo_GetByID (addConnectionLog k ev s) i = repo_GetByID s i"
  "repo_GetByID (emit es s) i = repo_GetByID s i"
  "repo_GetByID (register k h s) i = repo_GetByID s i"
  by (simp_all add: repo_GetByID_def live_def addConnectionLog_def emit_def register_def)

lemma tunnels_simps [simp]:
  "tunnels (addConnectionLog i ev s) = tunnels s"
  "tunnels (emit es s) = tunnels s"
  "tunnels (register i h s) = tunnels s"
  "tunnels (store_listener i l s) = tunnels s"
  by (simp_all add: addConnectionLog_def emit_def register_def store_listener_def)

lemma logs_simps [simp]:
  "connection_logs (addConnectionLog i ev s) = connection_logs s @ [\<lparr>TunnelID = i, EventType = ev\<rparr>]"
  "connection_logs (emit es s) = connection_logs s"
  "connection_logs (register i h s) = connection_logs s"
  "connection_logs (store_listener i l s) = connection_logs s"
  "connection_logs (repo_UpdateStatus i st s) = connection_logs s"
  by (simp_all add: addConnectionLog_def emit_def register_def store_listener_def
      repo_UpdateStatus_def)

lemma activeTunnels_register [simp]:
  "map_of (activeTunnels (register i h s)) i = Some h"
  by (simp add: register_def)


















subsection \<open>Outcomes of a start\<close>


definition env_port_busy :: env where
  "env_port_busy = env_all_ok\<lparr>listen_ok := (\<lambda>_ _. False)\<rparr>"








subsection \<open>Port scan\<close>

lemma FindAvailablePort_loop_Some:
  "FindAvailablePort_loop e a p b = Some q \<longleftrightarrow>
     p \<le> q \<and> q \<le> b \<and> listen_ok e a q \<and> (\<forall>r. p \<le> r \<and> r < q \<longrightarrow> \<not> listen_ok e a r)"
proof (induction e a p b rule: FindAvailablePort_loop.induct)
  case (1 e address port endPort)
  show ?case
  proof (cases "port \<le> endPort")
    case False
    then show ?thesis by (subst FindAvailablePort_loop.simps) auto
  next
    case True
    note le = this
    show ?thesis
    proof (cases "listen_ok e address port")
      case True
      have "FindAvailablePort_loop e address port endPort = Some port"
        using le True by (subst FindAvailablePort_loop.simps) simp
      moreover have "(port \<le> q \<and> q \<le> endPort \<and> listen_ok e address q
          \<and> (\<forall>r. port \<le> r \<and> r < q \<longrightarrow> \<not> listen_ok e address r)) \<longleftrightarrow> q = port"
        using le True by (metis less_le not_le order_refl)
      ultimately show ?thesis by auto
    next
      case False
      have "FindAvailablePort_loop e address port endPort
            = FindAvailablePort_loop e address (port + 1) endPort"
        using le False by (subst FindAvailablePort_loop.simps) simp
      moreover have "(port \<le> q \<and> q \<le> endPort \<and> listen_ok e address q
          \<and> (\<forall>r. port \<le> r \<and> r < q \<longrightarrow> \<not> listen_ok e address r))
        \<longleftrightarrow> (port + 1 \<le> q \<and> q \<le> endPort \<and> listen_ok e address q
          \<and> (\<forall>r. port + 1 \<le> r \<and> r < q \<longrightarrow> \<not> listen_ok e address r))"
      proof -
        have up: "r = port \<or> port + 1 \<le> r" if "port \<le> r" for r using that by arith
        have down: "port \<le> r" if "port + 1 \<le> r" for r using that by arith
        have lt: "port < q" if "port + 1 \<le> q" using that by arith
        show ?thesis using False up down lt by blast
      qed
      ultimately show ?thesis using 1 [OF le False] by simp
    qed
  qed
qed

lemma FindAvailablePort_loop_None:
  "FindAvailablePort_loop e a p b = None \<longleftrightarrow> (\<forall>r. p \<le> r \<and> r \<le> b \<longrightarrow> \<not> listen_ok e a r)"
proof (induction e a p b rule: FindAvailablePort_loop.induct)
  case (1 e address port endPort)
  show ?case
  proof (cases "port \<le> endPort")
    case False
    then show ?thesis by (subst FindAvailablePort_loop.simps) auto
  next
    case True
    note le = this
    show ?thesis
    proof (cases "listen_ok e address port")
      case True
      then show ?thesis using le by (subst FindAvailablePort_loop.simps) auto
    next
      case False
      have up: "r = port \<or> port + 1 \<le> r" if "port \<le> r" for r using that by arith
      have down: "port \<le> r" if "port + 1 \<le> r" for r using that by arith
      have "(\<forall>r. port \<le> r \<and> r \<le> endPort \<longrightarrow> \<not> listen_ok e address r)
        \<longleftrightarrow> (\<forall>r. port + 1 \<le> r \<and> r \<le> endPort \<longrightarrow> \<not> listen_ok e address r)"
        using False up down by blast
      then show ?thesis
        using 1 [OF le False] le False by (subst FindAvailablePort_loop.simps) simp
    qed
  qed
qed

lemma FindAvailablePort_Inr:
  "FindAvailablePort e a b address = Inr p \<longleftrightarrow>
     a \<le> p \<and> p \<le> b \<and> listen_ok e (if address = [] then ''localhost'' else address) p
     \<and> (\<forall>q. a \<le> q \<and> q < p \<longrightarrow> \<not> listen_ok e (if address = [] then ''localhost'' else address) q)"
proof -
  define a' where "a' = (if address = [] then ''localhost'' else address)"
  have "FindAvailablePort e a b address =
      (case FindAvailablePort_loop e a' a b of Some port \<Rightarrow> Inr port
       | None \<Rightarrow> Inl (NoAvailablePort a b))"
    by (simp add: FindAvailablePort_def a'_def)
  then show ?thesis
    unfolding a'_def [symmetric] using FindAvailablePort_loop_Some [of e a' a b p]
    by (auto split: option.splits)
qed

lemma FindAvailablePort_Inl:
  "(\<exists>err. FindAvailablePort e a b address = Inl err) \<longleftrightarrow>
     (\<forall>q. a \<le> q \<and> q \<le> b \<longrightarrow> \<not> listen_ok e (if address = [] then ''localhost'' else address) q)"
proof -
  define a' where "a' = (if address = [] then ''localhost'' else address)"
  have "FindAvailablePort e a b address =
      (case FindAvailablePort_loop e a' a b of Some port \<Rightarrow> Inr port
       | None \<Rightarrow> Inl (NoAvailablePort a b))"
    by (simp add: FindAvailablePort_def a'_def)
  then show ?thesis
    unfolding a'_def [symmetric] using FindAvailablePort_loop_None [of e a' a b]
    by (auto split: option.splits)
qed

lemma validate_fields:
  "validateTunnelConfig t = Inr t' \<Longrightarrow>
     ID t' = ID t \<and> Type t' = Type t \<and> LocalPort t' = LocalPort t
     \<and> LocalAddress t' = LocalAddress t \<and> Name t' = Name t \<and> HostID t' = HostID t"
  by (auto simp: validateTunnelConfig_def Let_def split: if_splits)

lemma repo_Create_fields:
  "repo_Create s t = Inr (t', s') \<Longrightarrow>
     Type t' = Type t \<and> LocalPort t' = LocalPort t
     \<and> (LocalAddress t \<noteq> [] \<longrightarrow> LocalAddress t' = LocalAddress t)
     \<and> tunnels s' = tunnels s @ [t'] \<and> Deleted t' = Deleted t"
  by (auto simp: repo_Create_def with_defaults_def Let_def split: if_splits)

lemma CreateTunnel_fields:
  assumes "CreateTunnel e s t = Inr (t', s')"
  shows "Type t' = Type t \<and> LocalPort t' = LocalPort t
     \<and> (LocalAddress t \<noteq> [] \<longrightarrow> LocalAddress t' = LocalAddress t)
     \<and> tunnels s' = tunnels s @ [t'] \<and> Deleted t' = Deleted t"
proof -
  from assms obtain t1 where v: "validateTunnelConfig t = Inr t1"
    and c: "repo_Create s (t1\<lparr>Status := TunnelStatusInactive\<rparr>) = Inr (t', s')"
    by (auto simp: CreateTunnel_def split: sum.splits option.splits)
  have "Deleted t1 = Deleted t"
    using v by (auto simp: validateTunnelConfig_def Let_def split: if_splits)
  then show ?thesis using validate_fields [OF v] repo_Create_fields [OF c] by simp
qed

lemma check_conflicts_None:
  "\<forall>r \<in> set rows. \<not> (LocalPort r = LocalPort t \<and> LocalAddress r = LocalAddress t) \<Longrightarrow>
   Type t \<noteq> TunnelTypeRemoteForward \<Longrightarrow> check_conflicts t rows = None"
  by (induction rows) auto

definition dynamic_request :: "nat \<Rightarrow> string \<Rightarrow> string \<Rightarrow> bool \<Rightarrow> int \<Rightarrow> Tunnel" where
  "dynamic_request hostID name description autoStart localPort =
     \<lparr>ID = 0, HostID = hostID, Name = name, Type = TunnelTypeDynamic,
      LocalAddress = ''localhost'', LocalPort = localPort,
      RemoteAddress = [], RemotePort = 0, Description = description,
      Status = [], AutoStart = autoStart, Deleted = False\<rparr>"

lemma CreateTunnel_dynamic_succeeds:
  assumes "name \<noteq> []" "hostID \<noteq> 0" "p \<noteq> 0" "listen_ok e ''localhost'' p"
    and "\<forall>r \<in> set (live s). \<not> (LocalPort r = p \<and> LocalAddress r = ''localhost'')"
  shows "\<exists>t s'. CreateTunnel e s (dynamic_request hostID name description autoStart p) = Inr (t, s')
          \<and> LocalPort t = p \<and> t \<in> set (live s')"
proof -
  let ?t = "dynamic_request hostID name description autoStart p"
  have v: "validateTunnelConfig ?t = Inr ?t"
    using assms(1-3) by (simp add: validateTunnelConfig_def dynamic_request_def)
  have "check_conflicts ?t (live s) = None"
    by (rule check_conflicts_None) (use assms(5) in \<open>simp_all add: dynamic_request_def\<close>)
  then have c: "checkPortAvailability e s ?t = None"
    using assms(4) by (simp add: checkPortAvailability_def repo_GetAll_def dynamic_request_def)
  obtain t s' where r: "repo_Create s (?t\<lparr>Status := TunnelStatusInactive\<rparr>) = Inr (t, s')"
    by (simp add: repo_Create_def dynamic_request_def Let_def)
  then have ct: "CreateTunnel e s ?t = Inr (t, s')" by (simp add: CreateTunnel_def v c)
  from repo_Create_fields [OF r] have "LocalPort t = p" "t \<in> set (live s')"
    by (simp_all add: live_def dynamic_request_def)
  then show ?thesis using ct by blast
qed

lemma CreateDynamic_unfold:
  "CreateDynamicSOCKS5Tunnel e s hostID name description autoStart =
     (case (case FindAvailablePort e 1080 1090 ''localhost'' of
              Inr p \<Rightarrow> Inr p
            | Inl _ \<Rightarrow> FindAvailablePort e 8080 8090 ''localhost'') of
        Inl err \<Rightarrow> Inl (FindPortFailed err)
      | Inr localPort \<Rightarrow>
          (case CreateTunnel e s (dynamic_request hostID name description autoStart localPort) of
             Inl err \<Rightarrow> Inl (CreateTunnelFailed err)
           | Inr r \<Rightarrow> Inr r))"
  by (simp only: CreateDynamicSOCKS5Tunnel_def dynamic_request_def)

lemma CreateDynamic_result:
  assumes "CreateDynamicSOCKS5Tunnel e s h n d au = Inr (t, s')"
  shows "Type t = TunnelTypeDynamic \<and> LocalAddress t = ''localhost''
     \<and> (FindAvailablePort e 1080 1090 ''localhost'' = Inr (LocalPort t)
        \<or> ((\<exists>err. FindAvailablePort e 1080 1090 ''localhost'' = Inl err)
            \<and> FindAvailablePort e 8080 8090 ''localhost'' = Inr (LocalPort t)))"
proof -
  from assms obtain p where
    f: "(case FindAvailablePort e 1080 1090 ''localhost'' of
              Inr p \<Rightarrow> Inr p
            | Inl _ \<Rightarrow> FindAvailablePort e 8080 8090 ''localhost'') = Inr p"
    and c: "CreateTunnel e s (dynamic_request h n d au p) = Inr (t, s')"
    by (auto simp: CreateDynamic_unfold split: sum.splits)
  from CreateTunnel_fields [OF c] have "Type t = TunnelTypeDynamic" "LocalAddress t = ''localhost''"
    "LocalPort t = p"
    by (simp_all add: dynamic_request_def)
  then show ?thesis using f by (auto split: sum.splits)
qed

lemma CreateDynamic_succeeds:
  assumes "n \<noteq> []" "h \<noteq> 0"
    and "(case FindAvailablePort e 1080 1090 ''localhost'' of
              Inr p \<Rightarrow> Inr p
            | Inl _ \<Rightarrow> FindAvailablePort e 8080 8090 ''localhost'') = Inr p"
    and "\<forall>r \<in> set (live s). \<not> (LocalPort r = p \<and> LocalAddress r = ''localhost'')"
  shows "\<exists>t s'. CreateDynamicSOCKS5Tunnel e s h n d au = Inr (t, s')
          \<and> LocalPort t = p \<and> t \<in> set (live s')"
proof -
  have "FindAvailablePort e 1080 1090 ''localhost'' = Inr p
      \<or> FindAvailablePort e 8080 8090 ''localhost'' = Inr p"
    using assms(3) by (auto split: sum.splits)
  then have "p \<noteq> 0 \<and> listen_ok e ''localhost'' p"
    by (auto simp: FindAvailablePort_Inr)
  then obtain t s' where "CreateTunnel e s (dynamic_request h n d au p) = Inr (t, s')"
    "LocalPort t = p" "t \<in> set (live s')"
    using CreateTunnel_dynamic_succeeds [OF assms(1,2) _ _ assms(4), of e d au] by blast
  then show ?thesis using assms(3) by (simp add: CreateDynamic_unfold)
qed

lemma check_conflicts_None_iff:
  "Type t \<noteq> TunnelTypeRemoteForward \<Longrightarrow>
   check_conflicts t rows = None \<longleftrightarrow>
     (\<forall>r \<in> set rows. ID r \<noteq> ID t \<longrightarrow>
        \<not> (LocalPort r = LocalPort t \<and> LocalAddress r = LocalAddress t))"
  by (induction rows) auto

lemma CreateTunnel_dynamic_cases:
  assumes "p \<noteq> 0" "listen_ok e ''localhost'' p"
  shows "(name \<noteq> [] \<and> hostID \<noteq> 0
          \<and> (\<forall>r \<in> set (live s). ID r \<noteq> 0 \<longrightarrow>
                \<not> (LocalPort r = p \<and> LocalAddress r = ''localhost'')) \<longrightarrow>
            (\<exists>t s'. CreateTunnel e s (dynamic_request hostID name description autoStart p) = Inr (t, s')
               \<and> Type t = TunnelTypeDynamic \<and> LocalAddress t = ''localhost'' \<and> LocalPort t = p
               \<and> t \<in> set (live s')))
       \<and> (\<not> (name \<noteq> [] \<and> hostID \<noteq> 0
          \<and> (\<forall>r \<in> set (live s). ID r \<noteq> 0 \<longrightarrow>
                \<not> (LocalPort r = p \<and> LocalAddress r = ''localhost''))) \<longrightarrow>
            (\<exists>err. CreateTunnel e s (dynamic_request hostID name description autoStart p) = Inl err))"
proof -
  let ?t = "dynamic_request hostID name description autoStart p"
  let ?free = "\<forall>r \<in> set (live s). ID r \<noteq> 0 \<longrightarrow>
                \<not> (LocalPort r = p \<and> LocalAddress r = ''localhost'')"
  have cc: "check_conflicts ?t (live s) = None \<longleftrightarrow> ?free"
    using check_conflicts_None_iff [of ?t "live s"] by (simp add: dynamic_request_def)
  have cp: "checkPortAvailability e s ?t = check_conflicts ?t (live s)"
    using assms(2) by (simp add: checkPortAvailability_def repo_GetAll_def dynamic_request_def)
  show ?thesis
  proof (cases "name \<noteq> [] \<and> hostID \<noteq> 0")
    case False
    then have "\<exists>err. validateTunnelConfig ?t = Inl err"
      by (auto simp: validateTunnelConfig_def dynamic_request_def)
    then show ?thesis using False by (auto simp: CreateTunnel_def)
  next
    case True
    then have v: "validateTunnelConfig ?t = Inr ?t"
      using assms(1) by (simp add: validateTunnelConfig_def dynamic_request_def)
    show ?thesis
    proof (cases ?free)
      case False
      then obtain err where "check_conflicts ?t (live s) = Some err" using cc by auto
      then show ?thesis using False by (simp add: CreateTunnel_def v cp)
    next
      case True
      note free = this
      then have c: "checkPortAvailability e s ?t = None" using cc cp by simp
      obtain t s' where r: "repo_Create s (?t\<lparr>Status := TunnelStatusInactive\<rparr>) = Inr (t, s')"
        by (simp add: repo_Create_def dynamic_request_def Let_def)
      then have ct: "CreateTunnel e s ?t = Inr (t, s')" by (simp add: CreateTunnel_def v c)
      from repo_Create_fields [OF r] have "LocalPort t = p" "t \<in> set (live s')"
        "Type t = TunnelTypeDynamic" "LocalAddress t = ''localhost''"
        by (simp_all add: live_def dynamic_request_def)
      then show ?thesis using ct free \<open>name \<noteq> [] \<and> hostID \<noteq> 0\<close> by blast
    qed
  qed
qed

lemma CreateDynamic_at_found_port:
  assumes "FindAvailablePort e 1080 1090 ''localhost'' = Inr p
      \<or> ((\<exists>err. FindAvailablePort e 1080 1090 ''localhost'' = Inl err)
          \<and> FindAvailablePort e 8080 8090 ''localhost'' = Inr p)"
  shows "(n \<noteq> [] \<and> h \<noteq> 0
          \<and> (\<forall>r \<in> set (live s). ID r \<noteq> 0 \<longrightarrow>
                \<not> (LocalPort r = p \<and> LocalAddress r = ''localhost'')) \<longrightarrow>
            (\<exists>t s'. CreateDynamicSOCKS5Tunnel e s h n d au = Inr (t, s')
               \<and> Type t = TunnelTypeDynamic \<and> LocalAddress t = ''localhost'' \<and> LocalPort t = p
               \<and> t \<in> set (live s')))
       \<and> (\<not> (n \<noteq> [] \<and> h \<noteq> 0
          \<and> (\<forall>r \<in> set (live s). ID r \<noteq> 0 \<longrightarrow>
                \<not> (LocalPort r = p \<and> LocalAddress r = ''localhost''))) \<longrightarrow>
            (\<exists>err. CreateDynamicSOCKS5Tunnel e s h n d au = Inl (CreateTunnelFailed err)))"
proof -
  have found: "(case FindAvailablePort e 1080 1090 ''localhost'' of
              Inr p \<Rightarrow> Inr p
            | Inl _ \<Rightarrow> FindAvailablePort e 8080 8090 ''localhost'') = Inr p"
    using assms by (auto split: sum.splits)
  have "FindAvailablePort e 1080 1090 ''localhost'' = Inr p
      \<or> FindAvailablePort e 8080 8090 ''localhost'' = Inr p"
    using assms by auto
  then have p: "p \<noteq> 0" "listen_ok e ''localhost'' p"
    by (auto simp: FindAvailablePort_Inr)
  have u: "CreateDynamicSOCKS5Tunnel e s h n d au =
      (case CreateTunnel e s (dynamic_request h n d au p) of
             Inl err \<Rightarrow> Inl (CreateTunnelFailed err)
           | Inr r \<Rightarrow> Inr r)"
    by (simp add: CreateDynamic_unfold found)
  show ?thesis
    using CreateTunnel_dynamic_cases [OF p, of n h s d au] unfolding u
    by (auto split: sum.splits)
qed

lemma CreateDynamic_no_port:
  assumes "\<forall>q. 1080 \<le> q \<and> q \<le> 1090 \<longrightarrow> \<not> listen_ok e ''localhost'' q"
    and "\<forall>q. 8080 \<le> q \<and> q \<le> 8090 \<longrightarrow> \<not> listen_ok e ''localhost'' q"
  shows "CreateDynamicSOCKS5Tunnel e s h n d au = Inl (FindPortFailed (NoAvailablePort 8080 8090))"
proof -
  have "FindAvailablePort_loop e ''localhost'' 1080 1090 = None"
    "FindAvailablePort_loop e ''localhost'' 8080 8090 = None"
    using assms by (simp_all add: FindAvailablePort_loop_None)
  then show ?thesis
    by (simp add: CreateDynamicSOCKS5Tunnel_def FindAvailablePort_def)
qed

definition socks_first :: Tunnel where
  "socks_first = \<lparr>ID = 2, HostID = 7, Name = ''socks'', Type = TunnelTypeDynamic,
     LocalAddress = ''localhost'', LocalPort = 1080, RemoteAddress = [], RemotePort = 0,
     Description = [], Status = TunnelStatusInactive, AutoStart = False, Deleted = False\<rparr>"

lemma Find_all_ok: "FindAvailablePort env_all_ok 1080 1090 ''localhost'' = Inr 1080"
  by (simp add: FindAvailablePort_Inr env_all_ok_def)

definition env_low_busy :: env where
  "env_low_busy = env_all_ok\<lparr>listen_ok := (\<lambda>_ port. \<not> (1080 \<le> port \<and> port \<le> 1090))\<rparr>"

text \<open>
  Claim C9, as amended. \<^verbatim>\<open>FindAvailablePort\<close> returns the smallest port of the range
  on which a transient bind succeeds (on \<^verbatim>\<open>localhost\<close> when the address is blank) and
  fails exactly when no port of the range binds; the loop counter is a Go \<^verbatim>\<open>int\<close>, so
  the range is taken to end below the largest one. \<^verbatim>\<open>CreateDynamicSOCKS5Tunnel\<close> scans
  1080 to 1090 on \<^verbatim>\<open>localhost\<close> and, only if that whole range is busy, 8080 to 8090;
  when both ranges are busy it fails. Otherwise it calls \<^verbatim>\<open>CreateTunnel\<close> once, for a
  dynamic tunnel on \<^verbatim>\<open>localhost\<close> at the port found, whichever port of the ranges that
  is: the creation succeeds, and the tunnel it returns and stores has that local port,
  exactly when the name is not empty, the host id is not zero and no stored tunnel that is
  not deleted is on \<^verbatim>\<open>localhost\<close> at that port (a row of id zero, which the
  repository never writes, would pass for the request itself); otherwise the call fails,
  and no further port is tried. So a tunnel that is returned has local port 1080 when 1080 is free, and
  8080 when 1080 to 1090 are busy and 8080 is free; and with a name, a host id and no stored
  tunnel on that port it is returned.
\<close>

theorem FindAvailablePort_first_free_and_dynamic_port:
  "(b < 9223372036854775807 \<longrightarrow>
      (FindAvailablePort e a b address = Inr p \<longleftrightarrow>
         a \<le> p \<and> p \<le> b \<and> listen_ok e (if address = [] then ''localhost'' else address) p
         \<and> (\<forall>q. a \<le> q \<and> q < p \<longrightarrow>
               \<not> listen_ok e (if address = [] then ''localhost'' else address) q))
    \<and> ((\<exists>err. FindAvailablePort e a b address = Inl err) \<longleftrightarrow>
         (\<forall>q. a \<le> q \<and> q \<le> b \<longrightarrow>
               \<not> listen_ok e (if address = [] then ''localhost'' else address) q)))
   \<and> ((\<forall>q. 1080 \<le> q \<and> q \<le> 1090 \<longrightarrow> \<not> listen_ok e ''localhost'' q)
        \<and> (\<forall>q. 8080 \<le> q \<and> q \<le> 8090 \<longrightarrow> \<not> listen_ok e ''localhost'' q) \<longrightarrow>
        CreateDynamicSOCKS5Tunnel e s h n d au = Inl (FindPortFailed (NoAvailablePort 8080 8090)))
   \<and> (FindAvailablePort e 1080 1090 ''localhost'' = Inr port
        \<or> ((\<exists>err. FindAvailablePort e 1080 1090 ''localhost'' = Inl err)
            \<and> FindAvailablePort e 8080 8090 ''localhost'' = Inr port) \<longrightarrow>
        (n \<noteq> [] \<and> h \<noteq> 0
          \<and> (\<forall>r \<in> set (live s). ID r \<noteq> 0 \<longrightarrow>
                \<not> (LocalPort r = port \<and> LocalAddress r = ''localhost'')) \<longrightarrow>
            (\<exists>t' s''. CreateDynamicSOCKS5Tunnel e s h n d au = Inr (t', s'')
               \<and> Type t' = TunnelTypeDynamic \<and> LocalAddress t' = ''localhost''
               \<and> LocalPort t' = port \<and> t' \<in> set (live s'')))
        \<and> (\<not> (n \<noteq> [] \<and> h \<noteq> 0
          \<and> (\<forall>r \<in> set (live s). ID r \<noteq> 0 \<longrightarrow>
                \<not> (LocalPort r = port \<and> LocalAddress r = ''localhost''))) \<longrightarrow>
            (\<exists>err. CreateDynamicSOCKS5Tunnel e s h n d au = Inl (CreateTunnelFailed err))))
   \<and> (CreateDynamicSOCKS5Tunnel e s h n d au = Inr (t, s') \<longrightarrow>
        Type t = TunnelTypeDynamic \<and> LocalAddress t = ''localhost''
        \<and> (FindAvailablePort e 1080 1090 ''localhost'' = Inr (LocalPort t)
           \<or> ((\<exists>err. FindAvailablePort e 1080 1090 ''localhost'' = Inl err)
               \<and> FindAvailablePort e 8080 8090 ''localhost'' = Inr (LocalPort t))))
   \<and> (CreateDynamicSOCKS5Tunnel e s h n d au = Inr (t, s') \<and> listen_ok e ''localhost'' 1080 \<longrightarrow>
        LocalPort t = 1080)
   \<and> (CreateDynamicSOCKS5Tunnel e s h n d au = Inr (t, s')
        \<and> (\<forall>q. 1080 \<le> q \<and> q \<le> 1090 \<longrightarrow> \<not> listen_ok e ''localhost'' q)
        \<and> listen_ok e ''localhost'' 8080 \<longrightarrow>
        LocalPort t = 8080)
   \<and> (n \<noteq> [] \<and> h \<noteq> 0 \<and> listen_ok e ''localhost'' 1080
        \<and> (\<forall>r \<in> set (live s). \<not> (LocalPort r = 1080 \<and> LocalAddress r = ''localhost'')) \<longrightarrow>
        (\<exists>t' s''. CreateDynamicSOCKS5Tunnel e s h n d au = Inr (t', s'')
            \<and> LocalPort t' = 1080 \<and> t' \<in> set (live s'')))
   \<and> (n \<noteq> [] \<and> h \<noteq> 0 \<and> (\<forall>q. 1080 \<le> q \<and> q \<le> 1090 \<longrightarrow> \<not> listen_ok e ''localhost'' q)
        \<and> listen_ok e ''localhost'' 8080
        \<and> (\<forall>r \<in> set (live s). \<not> (LocalPort r = 8080 \<and> LocalAddress r = ''localhost'')) \<longrightarrow>
        (\<exists>t' s''. CreateDynamicSOCKS5Tunnel e s h n d au = Inr (t', s'')
            \<and> LocalPort t' = 8080 \<and> t' \<in> set (live s'')))"
proof -
  have first: "FindAvailablePort e 1080 1090 ''localhost'' = Inr 1080"
    if "listen_ok e ''localhost'' 1080"
    using that by (auto simp: FindAvailablePort_Inr)
  have second: "(\<exists>err. FindAvailablePort e 1080 1090 ''localhost'' = Inl err)
      \<and> FindAvailablePort e 8080 8090 ''localhost'' = Inr 8080"
    if "\<forall>q. 1080 \<le> q \<and> q \<le> 1090 \<longrightarrow> \<not> listen_ok e ''localhost'' q"
      and "listen_ok e ''localhost'' 8080"
    using that by (auto simp: FindAvailablePort_Inr FindAvailablePort_Inl)
  have p1: "LocalPort t = 1080"
    if "CreateDynamicSOCKS5Tunnel e s h n d au = Inr (t, s')" "listen_ok e ''localhost'' 1080"
    using CreateDynamic_result [OF that(1)] first [OF that(2)] by auto
  have p2: "LocalPort t = 8080"
    if "CreateDynamicSOCKS5Tunnel e s h n d au = Inr (t, s')"
      "\<forall>q. 1080 \<le> q \<and> q \<le> 1090 \<longrightarrow> \<not> listen_ok e ''localhost'' q"
      "listen_ok e ''localhost'' 8080"
    using CreateDynamic_result [OF that(1)] second [OF that(2,3)] by auto
  have c1: "\<exists>t' s''. CreateDynamicSOCKS5Tunnel e s h n d au = Inr (t', s'')
            \<and> LocalPort t' = 1080 \<and> t' \<in> set (live s'')"
    if "n \<noteq> []" "h \<noteq> 0" "listen_ok e ''localhost'' 1080"
      "\<forall>r \<in> set (live s). \<not> (LocalPort r = 1080 \<and> LocalAddress r = ''localhost'')"
    by (rule CreateDynamic_succeeds [OF that(1,2) _ that(4)]) (simp add: first [OF that(3)])
  have c2: "\<exists>t' s''. CreateDynamicSOCKS5Tunnel e s h n d au = Inr (t', s'')
            \<and> LocalPort t' = 8080 \<and> t' \<in> set (live s'')"
    if "n \<noteq> []" "h \<noteq> 0" "\<forall>q. 1080 \<le> q \<and> q \<le> 1090 \<longrightarrow> \<not> listen_ok e ''localhost'' q"
      "listen_ok e ''localhost'' 8080"
      "\<forall>r \<in> set (live s). \<not> (LocalPort r = 8080 \<and> LocalAddress r = ''localhost'')"
    by (rule CreateDynamic_succeeds [OF that(1,2) _ that(5)])
      (use second [OF that(3,4)] in \<open>auto split: sum.splits\<close>)
  note scan = conjI [OF FindAvailablePort_Inr [of e a b address p]
      FindAvailablePort_Inl [of e a b address]]
  note none = CreateDynamic_no_port [of e s h n d au]
  note at = CreateDynamic_at_found_port [of e port n h s d au]
  note res = CreateDynamic_result [of e s h n d au t s']
  show ?thesis
    apply (intro conjI impI)
    subgoal by (rule FindAvailablePort_Inr)
    subgoal by (rule FindAvailablePort_Inl)
    subgoal using none by blast
    subgoal using at by blast
    subgoal using at by blast
    subgoal using res by blast
    subgoal using res by blast
    subgoal using res by blast
    subgoal using p1 by blast
    subgoal using p2 by blast
    subgoal using c1 by blast
    subgoal using c2 by blast
    done
qed

theorem FindAvailablePort_first_free_and_dynamic_port_witness:
  "FindAvailablePort env_low_busy 1085 8090 [] = Inr 1091
   \<and> (\<exists>err. FindAvailablePort env_low_busy 1080 1090 [] = Inl err)
   \<and> CreateDynamicSOCKS5Tunnel env_port_busy engine_S6 7 ''socks'' [] False
       = Inl (FindPortFailed (NoAvailablePort 8080 8090))
   \<and> (\<exists>t s'. CreateDynamicSOCKS5Tunnel env_all_ok engine_S6 7 ''socks'' [] False = Inr (t, s')
         \<and> Type t = TunnelTypeDynamic \<and> LocalAddress t = ''localhost''
         \<and> LocalPort t = 1080 \<and> t \<in> set (live s'))
   \<and> (\<exists>err. CreateDynamicSOCKS5Tunnel env_all_ok (engine_S6\<lparr>tunnels := [tunnel_S6, socks_first]\<rparr>)
                7 ''socks-2'' [] False = Inl (CreateTunnelFailed err))
   \<and> (\<exists>t s'. CreateDynamicSOCKS5Tunnel env_low_busy engine_S6 7 ''socks'' [] False = Inr (t, s')
         \<and> Type t = TunnelTypeDynamic \<and> LocalAddress t = ''localhost''
         \<and> LocalPort t = 8080 \<and> t \<in> set (live s'))"
proof -
  let ?s2 = "engine_S6\<lparr>tunnels := [tunnel_S6, socks_first]\<rparr>"
  have l: "live engine_S6 = [tunnel_S6]" by (simp add: live_def engine_S6_def tunnel_S6_def)
  have l2: "live ?s2 = [tunnel_S6, socks_first]"
    by (simp add: live_def engine_S6_def tunnel_S6_def socks_first_def)
  have f1: "\<forall>r \<in> set (live engine_S6). ID r \<noteq> 0 \<longrightarrow>
        \<not> (LocalPort r = 1080 \<and> LocalAddress r = ''localhost'')"
    and f2: "\<forall>r \<in> set (live engine_S6). ID r \<noteq> 0 \<longrightarrow>
        \<not> (LocalPort r = 8080 \<and> LocalAddress r = ''localhost'')"
    by (simp_all add: l tunnel_S6_def)
  have taken: "\<not> (''socks-2'' \<noteq> [] \<and> (7::nat) \<noteq> 0
      \<and> (\<forall>r \<in> set (live ?s2). ID r \<noteq> 0 \<longrightarrow>
            \<not> (LocalPort r = 1080 \<and> LocalAddress r = ''localhost'')))"
    unfolding l2 by (simp add: socks_first_def)
  have busy: "\<forall>q. 1080 \<le> q \<and> q \<le> 1090 \<longrightarrow> \<not> listen_ok env_low_busy ''localhost'' q"
    and busy': "\<forall>q. 1080 \<le> q \<and> q \<le> 1090 \<longrightarrow>
       \<not> listen_ok env_low_busy (if ([]::string) = [] then ''localhost'' else []) q"
    and free: "listen_ok env_low_busy ''localhost'' 8080"
    and lower: "\<forall>q. 8080 \<le> q \<and> q < 8080 \<longrightarrow> \<not> listen_ok env_low_busy ''localhost'' q"
    and free': "listen_ok env_low_busy (if ([]::string) = [] then ''localhost'' else []) 1091"
    and below: "\<forall>q. 1085 \<le> q \<and> q < 1091 \<longrightarrow>
       \<not> listen_ok env_low_busy (if ([]::string) = [] then ''localhost'' else []) q"
    by (simp_all add: env_low_busy_def env_all_ok_def)
  have none: "\<forall>q. 1080 \<le> q \<and> q \<le> 1090 \<longrightarrow> \<not> listen_ok env_port_busy ''localhost'' q"
    "\<forall>q. 8080 \<le> q \<and> q \<le> 8090 \<longrightarrow> \<not> listen_ok env_port_busy ''localhost'' q"
    by (simp_all add: env_port_busy_def env_all_ok_def)
  have n: "''socks'' \<noteq> [] \<and> (7::nat) \<noteq> 0" by simp
  have found_low: "FindAvailablePort env_low_busy 1080 1090 ''localhost'' = Inr 8080
      \<or> ((\<exists>err. FindAvailablePort env_low_busy 1080 1090 ''localhost'' = Inl err)
          \<and> FindAvailablePort env_low_busy 8080 8090 ''localhost'' = Inr 8080)"
    using busy free by (auto simp: FindAvailablePort_Inr FindAvailablePort_Inl)
  have found_ok: "FindAvailablePort env_all_ok 1080 1090 ''localhost'' = Inr 1080
      \<or> ((\<exists>err. FindAvailablePort env_all_ok 1080 1090 ''localhost'' = Inl err)
          \<and> FindAvailablePort env_all_ok 8080 8090 ''localhost'' = Inr 1080)"
    by (simp add: Find_all_ok)
  note scan1 = FindAvailablePort_first_free_and_dynamic_port
    [where e = env_low_busy and a = 1085 and b = 8090 and address = "[]" and p = 1091,
      THEN conjunct1]
  note scan2 = FindAvailablePort_first_free_and_dynamic_port
    [where e = env_low_busy and a = 1080 and b = 1090 and address = "[]", THEN conjunct1]
  note none' = FindAvailablePort_first_free_and_dynamic_port
    [where e = env_port_busy and s = engine_S6 and h = 7 and n = "''socks''" and d = "[]"
      and au = False, THEN conjunct2, THEN conjunct1]
  note at1 = FindAvailablePort_first_free_and_dynamic_port
    [where e = env_all_ok and s = engine_S6 and h = 7 and n = "''socks''" and d = "[]"
      and au = False and port = 1080, THEN conjunct2, THEN conjunct2, THEN conjunct1]
  note at2 = FindAvailablePort_first_free_and_dynamic_port
    [where e = env_all_ok and s = ?s2 and h = 7 and n = "''socks-2''" and d = "[]"
      and au = False and port = 1080, THEN conjunct2, THEN conjunct2, THEN conjunct1]
  note at3 = FindAvailablePort_first_free_and_dynamic_port
    [where e = env_low_busy and s = engine_S6 and h = 7 and n = "''socks''" and d = "[]"
      and au = False and port = 8080, THEN conjunct2, THEN conjunct2, THEN conjunct1]
  have "FindAvailablePort env_low_busy 1085 8090 [] = Inr 1091"
    using scan1 free' below by auto
  moreover have "\<exists>err. FindAvailablePort env_low_busy 1080 1090 [] = Inl err"
    using scan2 busy' by auto
  moreover have "CreateDynamicSOCKS5Tunnel env_port_busy engine_S6 7 ''socks'' [] False
       = Inl (FindPortFailed (NoAvailablePort 8080 8090))"
    using none' none by blast
  moreover have "\<exists>t s'. CreateDynamicSOCKS5Tunnel env_all_ok engine_S6 7 ''socks'' [] False = Inr (t, s')
         \<and> Type t = TunnelTypeDynamic \<and> LocalAddress t = ''localhost''
         \<and> LocalPort t = 1080 \<and> t \<in> set (live s')"
    using at1 [THEN mp, OF found_ok, THEN conjunct1] n f1 by blast
  moreover have "\<exists>err. CreateDynamicSOCKS5Tunnel env_all_ok ?s2 7 ''socks-2'' [] False
       = Inl (CreateTunnelFailed err)"
    using at2 [THEN mp, OF found_ok, THEN conjunct2] taken by blast
  moreover have "\<exists>t s'. CreateDynamicSOCKS5Tunnel env_low_busy engine_S6 7 ''socks'' [] False = Inr (t, s')
         \<and> Type t = TunnelTypeDynamic \<and> LocalAddress t = ''localhost''
         \<and> LocalPort t = 8080 \<and> t \<in> set (live s')"
    using at3 [THEN mp, OF found_low, THEN conjunct1] n f2 by blast
  ultimately show ?thesis by blast
qed

text \<open>
  Claim C9 as stated fails: the port found is not always the port of a created tunnel. A
  first \<^verbatim>\<open>CreateDynamicSOCKS5Tunnel\<close> stores a tunnel on \<^verbatim>\<open>localhost\<close>:1080 without
  starting it, so 1080 still binds; a second call finds 1080 again and fails on the
  conflict with the stored tunnel, without trying 1081.
\<close>

theorem CreateDynamic_second_call_counterexample:
  "CreateDynamicSOCKS5Tunnel env_all_ok engine_S6 7 ''socks'' [] False
     = Inr (socks_first, engine_S6\<lparr>tunnels := [tunnel_S6, socks_first]\<rparr>)
   \<and> listen_ok env_all_ok ''localhost'' 1080
   \<and> FindAvailablePort env_all_ok 1080 1090 ''localhost'' = Inr 1080
   \<and> CreateDynamicSOCKS5Tunnel env_all_ok (engine_S6\<lparr>tunnels := [tunnel_S6, socks_first]\<rparr>)
       7 ''socks-2'' [] False
     = Inl (CreateTunnelFailed (LocalPortInUse 2))"
proof -
  have l: "listen_ok env_all_ok ''localhost'' 1080" by (simp add: env_all_ok_def)
  show ?thesis
    by (simp add: CreateDynamicSOCKS5Tunnel_def Find_all_ok l CreateTunnel_def
        validateTunnelConfig_def checkPortAvailability_def repo_GetAll_def live_def
        repo_Create_def with_defaults_def next_id_def engine_S6_def tunnel_S6_def
        socks_first_def Let_def)
qed

subsection \<open>Uniqueness of local and remote binds\<close>

text \<open>
  The two data-model invariants over the rows that are not deleted: no two share their
  local address and port, and no two \<^verbatim>\<open>remote_forward\<close> rows share host, remote address
  and remote port.
\<close>

definition local_pairs_unique :: "engine \<Rightarrow> bool" where
  "local_pairs_unique s = distinct (map (\<lambda>t. (LocalAddress t, LocalPort t)) (live s))"

definition remote_triples_unique :: "engine \<Rightarrow> bool" where
  "remote_triples_unique s =
     distinct (map (\<lambda>t. (HostID t, RemoteAddress t, RemotePort t))
       (filter (\<lambda>t. Type t = TunnelTypeRemoteForward) (live s)))"

definition web_a :: Tunnel where
  "web_a = \<lparr>ID = 1, HostID = 7, Name = ''web-a'', Type = TunnelTypeRemoteForward,
     LocalAddress = ''127.0.0.1'', LocalPort = 3000, RemoteAddress = ''0.0.0.0'', RemotePort = 30000,
     Description = [], Status = TunnelStatusInactive, AutoStart = False, Deleted = False\<rparr>"

definition web_b :: Tunnel where
  "web_b = \<lparr>ID = 2, HostID = 7, Name = ''web-b'', Type = TunnelTypeRemoteForward,
     LocalAddress = ''127.0.0.1'', LocalPort = 3001, RemoteAddress = ''0.0.0.0'', RemotePort = 30001,
     Description = [], Status = TunnelStatusInactive, AutoStart = False, Deleted = False\<rparr>"

definition engine_two :: engine where
  "engine_two = \<lparr>tunnels = [web_a, web_b], connection_logs = [], activeTunnels = [], trace = []\<rparr>"

text \<open>
  Claim C5. Every tunnel-mutating operation is specified to preserve both invariants.
  \<^verbatim>\<open>UpdateTunnel\<close> validates the record and saves it without the port check that
  \<^verbatim>\<open>CreateTunnel\<close> runs: on two remote forwards of one host, updating the second to the
  local and remote ports of the first succeeds and leaves both invariants broken, while
  creating a tunnel with either of those ports is refused.
\<close>

theorem UpdateTunnel_breaks_uniqueness:
  "local_pairs_unique engine_two \<and> remote_triples_unique engine_two
   \<and> UpdateTunnel env_all_ok engine_two (web_b\<lparr>LocalPort := 3000, RemotePort := 30000\<rparr>)
       = (None, engine_two\<lparr>tunnels := [web_a, web_b\<lparr>LocalPort := 3000, RemotePort := 30000\<rparr>]\<rparr>)
   \<and> \<not> local_pairs_unique
         (snd (UpdateTunnel env_all_ok engine_two (web_b\<lparr>LocalPort := 3000, RemotePort := 30000\<rparr>)))
   \<and> \<not> remote_triples_unique
         (snd (UpdateTunnel env_all_ok engine_two (web_b\<lparr>LocalPort := 3000, RemotePort := 30000\<rparr>)))
   \<and> CreateTunnel env_all_ok engine_two (web_b\<lparr>ID := 0, LocalPort := 3000\<rparr>) = Inl (LocalPortInUse 1)
   \<and> CreateTunnel env_all_ok engine_two (web_b\<lparr>ID := 0, RemotePort := 30000\<rparr>) = Inl (RemotePortInUse 1)"
proof -
  have u: "UpdateTunnel env_all_ok engine_two (web_b\<lparr>LocalPort := 3000, RemotePort := 30000\<rparr>)
       = (None, engine_two\<lparr>tunnels := [web_a, web_b\<lparr>LocalPort := 3000, RemotePort := 30000\<rparr>]\<rparr>)"
    by (simp add: UpdateTunnel_def validateTunnelConfig_def repo_Update_def engine_two_def
        web_a_def web_b_def)
  have c1: "CreateTunnel env_all_ok engine_two (web_b\<lparr>ID := 0, LocalPort := 3000\<rparr>) = Inl (LocalPortInUse 1)"
    by (simp add: CreateTunnel_def validateTunnelConfig_def checkPortAvailability_def
        repo_GetAll_def live_def engine_two_def env_all_ok_def web_a_def web_b_def)
  have c2: "CreateTunnel env_all_ok engine_two (web_b\<lparr>ID := 0, RemotePort := 30000\<rparr>) = Inl (RemotePortInUse 1)"
    by (simp add: CreateTunnel_def validateTunnelConfig_def checkPortAvailability_def
        repo_GetAll_def live_def engine_two_def env_all_ok_def web_a_def web_b_def)
  have i: "local_pairs_unique engine_two" "remote_triples_unique engine_two"
    by (simp_all add: local_pairs_unique_def remote_triples_unique_def live_def engine_two_def
        web_a_def web_b_def)
  have b: "\<not> local_pairs_unique (engine_two\<lparr>tunnels := [web_a, web_b\<lparr>LocalPort := 3000, RemotePort := 30000\<rparr>]\<rparr>)"
    "\<not> remote_triples_unique (engine_two\<lparr>tunnels := [web_a, web_b\<lparr>LocalPort := 3000, RemotePort := 30000\<rparr>]\<rparr>)"
    by (simp_all add: local_pairs_unique_def remote_triples_unique_def live_def engine_two_def
        web_a_def web_b_def)
  show ?thesis unfolding u snd_conv using i b c1 c2 by simp
qed

text \<open>
  \<^verbatim>\<open>CreateTunnel\<close> runs its check on the local address as given. A request that
  leaves the address empty passes the check against a row on \<open>127.0.0.1\<close>, and the
  repository then stores it under the column default \<open>127.0.0.1\<close>.
\<close>

lemma CreateTunnel_blank_address:
  "CreateTunnel env_all_ok engine_two
     (web_b\<lparr>ID := 0, LocalAddress := [], LocalPort := 3000, RemotePort := 30002\<rparr>)
   = Inr (web_b\<lparr>ID := 3, LocalPort := 3000, RemotePort := 30002\<rparr>,
          engine_two\<lparr>tunnels := [web_a, web_b,
            web_b\<lparr>ID := 3, LocalPort := 3000, RemotePort := 30002\<rparr>]\<rparr>)"
  by (simp add: CreateTunnel_def validateTunnelConfig_def checkPortAvailability_def
      repo_GetAll_def live_def repo_Create_def with_defaults_def next_id_def engine_two_def
      env_all_ok_def web_a_def web_b_def Let_def)

section \<open>SOCKS5 server\<close>

text \<open>
  One inbound connection of the embedded SOCKS5 server. A \<^verbatim>\<open>conn.Read\<close> into the fresh
  256-byte buffer either fails or yields the bytes read (at most 256 of what the client
  sent; the rest of the buffer stays zero). Whether a \<^verbatim>\<open>conn.Write\<close> succeeds and whether
  the SSH client can dial a destination are decided outside the server. The relay that
  follows a successful request is not modelled beyond the fact that it starts.
\<close>

type_synonym byte = "8 word"

datatype dest_addr = IPv4 byte byte byte byte | Domain "byte list" | IPv6 "byte list"

datatype socks_error =
    ReadFailed
  | WriteFailed
  | InvalidVersion
  | InvalidAuthRequest
  | NoAcceptableMethod
  | InvalidRequest
  | UnsupportedCommand byte
  | IncompleteIPv4
  | IncompleteDomainLength
  | IncompleteDomain
  | IncompleteIPv6
  | UnsupportedAddressType byte
  | ConnectFailed dest_addr nat
  | AuthenticationFailed socks_error
  | RequestFailed socks_error

datatype outcome = Failed socks_error | Relaying dest_addr nat

abbreviation Socks5Version :: byte where "Socks5Version \<equiv> 0x05"
abbreviation AuthMethodNoAuth :: byte where "AuthMethodNoAuth \<equiv> 0x00"
abbreviation AuthMethodNoAcceptable :: byte where "AuthMethodNoAcceptable \<equiv> 0xFF"
abbreviation CmdConnect :: byte where "CmdConnect \<equiv> 0x01"
abbreviation AtypIPV4 :: byte where "AtypIPV4 \<equiv> 0x01"
abbreviation AtypDomain :: byte where "AtypDomain \<equiv> 0x03"
abbreviation AtypIPV6 :: byte where "AtypIPV6 \<equiv> 0x04"
abbreviation RepSuccess :: byte where "RepSuccess \<equiv> 0x00"
abbreviation RepHostUnreachable :: byte where "RepHostUnreachable \<equiv> 0x04"
abbreviation RepCommandNotSupported :: byte where "RepCommandNotSupported \<equiv> 0x07"
abbreviation RepAddressNotSupported :: byte where "RepAddressNotSupported \<equiv> 0x08"

definition read_len :: "byte list \<Rightarrow> nat" where
  "read_len data = min (length data) 256"

definition read_buf :: "byte list \<Rightarrow> byte list" where
  "read_buf data = take 256 data @ replicate (256 - length data) 0"

definition reply :: "byte \<Rightarrow> byte list" where
  "reply rep = [Socks5Version, rep, 0x00, AtypIPV4, 0, 0, 0, 0, 0, 0]"

definition Uint16 :: "byte \<Rightarrow> byte \<Rightarrow> nat" where
  "Uint16 hi lo = unat hi * 256 + unat lo"

definition slice :: "byte list \<Rightarrow> nat \<Rightarrow> nat \<Rightarrow> byte list" where
  "slice buf lo hi = take (hi - lo) (drop lo buf)"

definition handleAuth ::
  "socks_error + byte list \<Rightarrow> (byte list \<Rightarrow> bool) \<Rightarrow> byte list list \<times> socks_error option" where
  "handleAuth rd wr =
     (case rd of
        Inl err \<Rightarrow> ([], Some err)
      | Inr data \<Rightarrow>
          (let n = read_len data; buf = read_buf data
           in if n < 2 \<or> buf ! 0 \<noteq> Socks5Version then ([], Some InvalidVersion)
              else
                (let nMethods = unat (buf ! 1)
                 in if n < 2 + nMethods then ([], Some InvalidAuthRequest)
                    else
                      (let supportNoAuth =
                             list_ex (\<lambda>i. buf ! (2 + i) = AuthMethodNoAuth) [0..<nMethods];
                           response = (if supportNoAuth then [Socks5Version, AuthMethodNoAuth]
                                       else [Socks5Version, AuthMethodNoAcceptable])
                       in if \<not> wr response then ([response], Some WriteFailed)
                          else if \<not> supportNoAuth then ([response], Some NoAcceptableMethod)
                          else ([response], None)))))"

definition connect_to ::
  "(byte list \<Rightarrow> bool) \<Rightarrow> (dest_addr \<Rightarrow> nat \<Rightarrow> bool) \<Rightarrow> dest_addr \<Rightarrow> nat
     \<Rightarrow> byte list list \<times> outcome" where
  "connect_to wr dial destAddr destPort =
     (if \<not> dial destAddr destPort
        then ([reply RepHostUnreachable], Failed (ConnectFailed destAddr destPort))
      else if \<not> wr (reply RepSuccess) then ([reply RepSuccess], Failed WriteFailed)
      else ([reply RepSuccess], Relaying destAddr destPort))"

definition handleRequest ::
  "socks_error + byte list \<Rightarrow> (byte list \<Rightarrow> bool) \<Rightarrow> (dest_addr \<Rightarrow> nat \<Rightarrow> bool)
     \<Rightarrow> byte list list \<times> outcome" where
  "handleRequest rd wr dial =
     (case rd of
        Inl err \<Rightarrow> ([], Failed err)
      | Inr data \<Rightarrow>
          (let n = read_len data; buf = read_buf data
           in if n < 4 \<or> buf ! 0 \<noteq> Socks5Version then ([], Failed InvalidRequest)
              else
                (let cmd = buf ! 1; atyp = buf ! 3; offset = 4
                 in if cmd \<noteq> CmdConnect
                      then ([reply RepCommandNotSupported], Failed (UnsupportedCommand cmd))
                    else if atyp = AtypIPV4 then
                      (if n < offset + 6 then ([], Failed IncompleteIPv4)
                       else connect_to wr dial
                              (IPv4 (buf ! offset) (buf ! (offset + 1)) (buf ! (offset + 2))
                                 (buf ! (offset + 3)))
                              (Uint16 (buf ! (offset + 4)) (buf ! (offset + 5))))
                    else if atyp = AtypDomain then
                      (if n < offset + 1 then ([], Failed IncompleteDomainLength)
                       else
                         (let domainLen = unat (buf ! offset)
                          in if n < offset + 1 + domainLen + 2 then ([], Failed IncompleteDomain)
                             else connect_to wr dial
                                    (Domain (slice buf (offset + 1) (offset + 1 + domainLen)))
                                    (Uint16 (buf ! (offset + 1 + domainLen))
                                       (buf ! (offset + 1 + domainLen + 1)))))
                    else if atyp = AtypIPV6 then
                      (if n < offset + 18 then ([], Failed IncompleteIPv6)
                       else connect_to wr dial (IPv6 (slice buf offset (offset + 16)))
                              (Uint16 (buf ! (offset + 16)) (buf ! (offset + 17))))
                    else ([reply RepAddressNotSupported], Failed (UnsupportedAddressType atyp)))))"

definition HandleConnection ::
  "socks_error + byte list \<Rightarrow> socks_error + byte list \<Rightarrow> (byte list \<Rightarrow> bool)
     \<Rightarrow> (dest_addr \<Rightarrow> nat \<Rightarrow> bool) \<Rightarrow> byte list list \<times> outcome" where
  "HandleConnection rd1 rd2 wr dial =
     (case handleAuth rd1 wr of
        (w1, Some err) \<Rightarrow> (w1, Failed (AuthenticationFailed err))
      | (w1, None) \<Rightarrow>
          (case handleRequest rd2 wr dial of
             (w2, Failed err) \<Rightarrow> (w1 @ w2, Failed (RequestFailed err))
           | (w2, Relaying a p) \<Rightarrow> (w1 @ w2, Relaying a p)))"

lemma handleAuth_well_formed:
  assumes "2 \<le> read_len data" "read_buf data ! 0 = 0x05"
    "2 + unat (read_buf data ! 1) \<le> read_len data"
  shows "((\<exists>i < unat (read_buf data ! 1). read_buf data ! (2 + i) = 0x00) \<longrightarrow>
            fst (handleAuth (Inr data) wr) = [[0x05, 0x00]]
          \<and> (wr [0x05, 0x00] \<longrightarrow> snd (handleAuth (Inr data) wr) = None))
       \<and> (\<not> (\<exists>i < unat (read_buf data ! 1). read_buf data ! (2 + i) = 0x00) \<longrightarrow>
            fst (handleAuth (Inr data) wr) = [[0x05, 0xFF]]
          \<and> snd (handleAuth (Inr data) wr) \<noteq> None)"
  using assms by (auto simp: handleAuth_def Let_def list_ex_iff not_less [symmetric])

lemma connect_to_replies:
  "(\<not> dial a p \<longrightarrow>
      connect_to wr dial a p = ([[0x05, 0x04, 0x00, 0x01, 0, 0, 0, 0, 0, 0]], Failed (ConnectFailed a p)))
   \<and> (dial a p \<longrightarrow>
      fst (connect_to wr dial a p) = [[0x05, 0x00, 0x00, 0x01, 0, 0, 0, 0, 0, 0]]
      \<and> (wr [0x05, 0x00, 0x00, 0x01, 0, 0, 0, 0, 0, 0] \<longrightarrow>
           snd (connect_to wr dial a p) = Relaying a p))"
  by (simp add: connect_to_def reply_def)

lemma handleRequest_not_connect:
  assumes "4 \<le> read_len req" "read_buf req ! 0 = 0x05" "read_buf req ! 1 \<noteq> 0x01"
  shows "handleRequest (Inr req) wr dial =
     ([[0x05, 0x07, 0x00, 0x01, 0, 0, 0, 0, 0, 0]], Failed (UnsupportedCommand (read_buf req ! 1)))"
  using assms by (simp add: handleRequest_def Let_def reply_def not_less [symmetric])

lemma handleRequest_unknown_atyp:
  assumes "4 \<le> read_len req" "read_buf req ! 0 = 0x05" "read_buf req ! 1 = 0x01"
    "read_buf req ! 3 \<noteq> 0x01" "read_buf req ! 3 \<noteq> 0x03" "read_buf req ! 3 \<noteq> 0x04"
  shows "handleRequest (Inr req) wr dial =
     ([[0x05, 0x08, 0x00, 0x01, 0, 0, 0, 0, 0, 0]], Failed (UnsupportedAddressType (read_buf req ! 3)))"
  using assms by (simp add: handleRequest_def Let_def reply_def not_less [symmetric])

lemma handleRequest_ipv4:
  assumes "10 \<le> read_len req" "read_buf req ! 0 = 0x05" "read_buf req ! 1 = 0x01"
    "read_buf req ! 3 = 0x01"
  shows "handleRequest (Inr req) wr dial =
     connect_to wr dial
       (IPv4 (read_buf req ! 4) (read_buf req ! 5) (read_buf req ! 6) (read_buf req ! 7))
       (unat (read_buf req ! 8) * 256 + unat (read_buf req ! 9))"
  using assms by (simp add: handleRequest_def Let_def Uint16_def not_less [symmetric])

lemma handleRequest_domain:
  assumes "7 + unat (read_buf req ! 4) \<le> read_len req" "read_buf req ! 0 = 0x05"
    "read_buf req ! 1 = 0x01" "read_buf req ! 3 = 0x03"
  shows "handleRequest (Inr req) wr dial =
     connect_to wr dial
       (Domain (take (unat (read_buf req ! 4)) (drop 5 (read_buf req))))
       (unat (read_buf req ! (5 + unat (read_buf req ! 4))) * 256
          + unat (read_buf req ! (6 + unat (read_buf req ! 4))))"
  using assms
  by (simp add: handleRequest_def Let_def Uint16_def slice_def not_less [symmetric] add.commute)

lemma handleRequest_ipv6:
  assumes "22 \<le> read_len req" "read_buf req ! 0 = 0x05" "read_buf req ! 1 = 0x01"
    "read_buf req ! 3 = 0x04"
  shows "handleRequest (Inr req) wr dial =
     connect_to wr dial (IPv6 (take 16 (drop 4 (read_buf req))))
       (unat (read_buf req ! 20) * 256 + unat (read_buf req ! 21))"
  using assms by (simp add: handleRequest_def Let_def Uint16_def slice_def not_less [symmetric])

lemma handleAuth_malformed:
  assumes "read_len data < 2 \<or> read_buf data ! 0 \<noteq> 0x05
      \<or> read_len data < 2 + unat (read_buf data ! 1)"
  shows "fst (handleAuth (Inr data) wr) = [] \<and> snd (handleAuth (Inr data) wr) \<noteq> None"
  using assms by (auto simp: handleAuth_def Let_def)

lemma read_len_le: "read_len data \<le> 256"
  by (simp add: read_len_def)

lemma handleAuth_255_methods:
  assumes "read_buf data ! 1 = 0xFF"
  shows "fst (handleAuth (Inr data) wr) = [] \<and> snd (handleAuth (Inr data) wr) \<noteq> None"
proof -
  have "unat (read_buf data ! 1) = 255" unfolding assms by simp
  then have "read_len data < 2 + unat (read_buf data ! 1)"
    using read_len_le [of data] by linarith
  then show ?thesis by (simp add: handleAuth_malformed)
qed

lemma handleRequest_malformed:
  assumes "read_len req < 4 \<or> read_buf req ! 0 \<noteq> 0x05"
  shows "handleRequest (Inr req) wr dial = ([], Failed InvalidRequest)"
  using assms by (auto simp: handleRequest_def Let_def)

lemma handleRequest_incomplete:
  assumes "4 \<le> read_len req" "read_buf req ! 0 = 0x05" "read_buf req ! 1 = 0x01"
    and "(read_buf req ! 3 = 0x01 \<and> read_len req < 10)
      \<or> (read_buf req ! 3 = 0x03 \<and> read_len req < 7 + unat (read_buf req ! 4))
      \<or> (read_buf req ! 3 = 0x04 \<and> read_len req < 22)"
  shows "fst (handleRequest (Inr req) wr dial) = []
     \<and> (\<exists>err. snd (handleRequest (Inr req) wr dial) = Failed err)"
  using assms by (auto simp: handleRequest_def Let_def not_less [symmetric])

lemma HandleConnection_auth_failed:
  assumes "snd (handleAuth rd1 wr) \<noteq> None"
  shows "fst (HandleConnection rd1 rd2 wr dial) = fst (handleAuth rd1 wr)
     \<and> (\<exists>err. snd (HandleConnection rd1 rd2 wr dial) = Failed (AuthenticationFailed err))"
  using assms by (cases "handleAuth rd1 wr") (auto simp: HandleConnection_def)

text \<open>
  Claim C4, as amended. For an inbound connection whose first read delivers a whole
  method-selection request (at least two bytes, version 5, all announced methods among the
  bytes read), the server writes \<open>05 00\<close> if method \<open>00\<close> is among the announced ones
  and goes on, and otherwise writes \<open>05 FF\<close> and ends with an error. When the first read
  fails or delivers anything else (fewer than two bytes, another version, fewer methods
  than announced; a request announcing 255 methods never fits the 256-byte buffer), the
  server ends with an error and writes nothing, and the request is not read. For a request
  of version 5 and at least four bytes: a command other than CONNECT is answered with reply
  code \<open>07\<close> and an error; an address type other than 1, 3 and 4 is answered with reply
  code \<open>08\<close> and an error; a complete IPv4, domain or IPv6 destination (port two bytes
  big-endian) is dialled, a failed dial is answered with reply code \<open>04\<close> and an error,
  and a successful dial with exactly \<open>05 00 00 01 00 00 00 00 00 00\<close> before the relay
  starts. A request whose read fails, that is shorter than four bytes or of another
  version, or whose address is cut short, ends with an error and no reply.
\<close>

theorem socks5_handshake_replies:
  "(2 \<le> read_len data \<and> read_buf data ! 0 = 0x05 \<and> 2 + unat (read_buf data ! 1) \<le> read_len data \<longrightarrow>
      ((\<exists>i < unat (read_buf data ! 1). read_buf data ! (2 + i) = 0x00) \<longrightarrow>
            fst (handleAuth (Inr data) wr) = [[0x05, 0x00]]
          \<and> (wr [0x05, 0x00] \<longrightarrow> snd (handleAuth (Inr data) wr) = None))
       \<and> (\<not> (\<exists>i < unat (read_buf data ! 1). read_buf data ! (2 + i) = 0x00) \<longrightarrow>
            fst (handleAuth (Inr data) wr) = [[0x05, 0xFF]]
          \<and> snd (handleAuth (Inr data) wr) \<noteq> None))
   \<and> (4 \<le> read_len req \<and> read_buf req ! 0 = 0x05 \<and> read_buf req ! 1 \<noteq> 0x01 \<longrightarrow>
        handleRequest (Inr req) wr dial =
          ([[0x05, 0x07, 0x00, 0x01, 0, 0, 0, 0, 0, 0]], Failed (UnsupportedCommand (read_buf req ! 1))))
   \<and> (4 \<le> read_len req \<and> read_buf req ! 0 = 0x05 \<and> read_buf req ! 1 = 0x01
        \<and> read_buf req ! 3 \<noteq> 0x01 \<and> read_buf req ! 3 \<noteq> 0x03 \<and> read_buf req ! 3 \<noteq> 0x04 \<longrightarrow>
        handleRequest (Inr req) wr dial =
          ([[0x05, 0x08, 0x00, 0x01, 0, 0, 0, 0, 0, 0]],
           Failed (UnsupportedAddressType (read_buf req ! 3))))
   \<and> (10 \<le> read_len req \<and> read_buf req ! 0 = 0x05 \<and> read_buf req ! 1 = 0x01
        \<and> read_buf req ! 3 = 0x01 \<longrightarrow>
        handleRequest (Inr req) wr dial =
          connect_to wr dial
            (IPv4 (read_buf req ! 4) (read_buf req ! 5) (read_buf req ! 6) (read_buf req ! 7))
            (unat (read_buf req ! 8) * 256 + unat (read_buf req ! 9)))
   \<and> (7 + unat (read_buf req ! 4) \<le> read_len req \<and> read_buf req ! 0 = 0x05
        \<and> read_buf req ! 1 = 0x01 \<and> read_buf req ! 3 = 0x03 \<longrightarrow>
        handleRequest (Inr req) wr dial =
          connect_to wr dial
            (Domain (take (unat (read_buf req ! 4)) (drop 5 (read_buf req))))
            (unat (read_buf req ! (5 + unat (read_buf req ! 4))) * 256
               + unat (read_buf req ! (6 + unat (read_buf req ! 4)))))
   \<and> (22 \<le> read_len req \<and> read_buf req ! 0 = 0x05 \<and> read_buf req ! 1 = 0x01
        \<and> read_buf req ! 3 = 0x04 \<longrightarrow>
        handleRequest (Inr req) wr dial =
          connect_to wr dial (IPv6 (take 16 (drop 4 (read_buf req))))
            (unat (read_buf req ! 20) * 256 + unat (read_buf req ! 21)))
   \<and> (\<not> dial a p \<longrightarrow>
        connect_to wr dial a p =
          ([[0x05, 0x04, 0x00, 0x01, 0, 0, 0, 0, 0, 0]], Failed (ConnectFailed a p)))
   \<and> (dial a p \<longrightarrow>
        fst (connect_to wr dial a p) = [[0x05, 0x00, 0x00, 0x01, 0, 0, 0, 0, 0, 0]]
        \<and> (wr [0x05, 0x00, 0x00, 0x01, 0, 0, 0, 0, 0, 0] \<longrightarrow>
             snd (connect_to wr dial a p) = Relaying a p))
   \<and> handleAuth (Inl rerr) wr = ([], Some rerr)
   \<and> (read_len data < 2 \<or> read_buf data ! 0 \<noteq> 0x05
        \<or> read_len data < 2 + unat (read_buf data ! 1) \<longrightarrow>
        fst (handleAuth (Inr data) wr) = [] \<and> snd (handleAuth (Inr data) wr) \<noteq> None)
   \<and> (read_buf data ! 1 = 0xFF \<longrightarrow>
        fst (handleAuth (Inr data) wr) = [] \<and> snd (handleAuth (Inr data) wr) \<noteq> None)
   \<and> (snd (handleAuth (Inr data) wr) \<noteq> None \<longrightarrow>
        fst (HandleConnection (Inr data) nxt wr dial) = fst (handleAuth (Inr data) wr)
        \<and> (\<exists>err. snd (HandleConnection (Inr data) nxt wr dial) = Failed (AuthenticationFailed err)))
   \<and> handleRequest (Inl rerr) wr dial = ([], Failed rerr)
   \<and> (read_len req < 4 \<or> read_buf req ! 0 \<noteq> 0x05 \<longrightarrow>
        handleRequest (Inr req) wr dial = ([], Failed InvalidRequest))
   \<and> (4 \<le> read_len req \<and> read_buf req ! 0 = 0x05 \<and> read_buf req ! 1 = 0x01
        \<and> ((read_buf req ! 3 = 0x01 \<and> read_len req < 10)
           \<or> (read_buf req ! 3 = 0x03 \<and> read_len req < 7 + unat (read_buf req ! 4))
           \<or> (read_buf req ! 3 = 0x04 \<and> read_len req < 22)) \<longrightarrow>
        fst (handleRequest (Inr req) wr dial) = []
        \<and> (\<exists>err. snd (handleRequest (Inr req) wr dial) = Failed err))"
proof -
  have r0: "handleAuth (Inl rerr) wr = ([], Some rerr)"
    "handleRequest (Inl rerr) wr dial = ([], Failed rerr)"
    by (simp_all add: handleAuth_def handleRequest_def)
  note auth = handleAuth_well_formed [of data wr]
  note conn = connect_to_replies [of dial a p wr]
  show ?thesis
    apply (intro conjI)
    subgoal using auth by blast
    subgoal using handleRequest_not_connect [of req wr dial] by blast
    subgoal using handleRequest_unknown_atyp [of req wr dial] by blast
    subgoal using handleRequest_ipv4 [of req wr dial] by blast
    subgoal using handleRequest_domain [of req wr dial] by blast
    subgoal using handleRequest_ipv6 [of req wr dial] by blast
    subgoal using conn by blast
    subgoal using conn by blast
    subgoal by (rule r0(1))
    subgoal using handleAuth_malformed [of data wr] by blast
    subgoal using handleAuth_255_methods [of data wr] by blast
    subgoal using HandleConnection_auth_failed [of "Inr data" wr nxt dial] by blast
    subgoal by (rule r0(2))
    subgoal using handleRequest_malformed [of req wr dial] by blast
    subgoal using handleRequest_incomplete [of req wr dial] by blast
    done
qed

theorem socks5_handshake_replies_witness:
  "handleAuth (Inr [0x05, 0x01, 0x00]) (\<lambda>_. True) = ([[0x05, 0x00]], None)
   \<and> fst (handleAuth (Inr [0x05, 0x01, 0x02]) (\<lambda>_. True)) = [[0x05, 0xFF]]
   \<and> snd (handleAuth (Inr [0x05, 0x01, 0x02]) (\<lambda>_. True)) \<noteq> None
   \<and> handleRequest (Inr [0x05, 0x02, 0x00, 0x01, 0x7F, 0x00, 0x00, 0x01, 0x00, 0x50])
         (\<lambda>_. True) (\<lambda>_ _. True)
       = ([[0x05, 0x07, 0x00, 0x01, 0, 0, 0, 0, 0, 0]], Failed (UnsupportedCommand 0x02))
   \<and> handleRequest (Inr [0x05, 0x01, 0x00, 0x05, 0x7F, 0x00, 0x00, 0x01, 0x00, 0x50])
         (\<lambda>_. True) (\<lambda>_ _. True)
       = ([[0x05, 0x08, 0x00, 0x01, 0, 0, 0, 0, 0, 0]], Failed (UnsupportedAddressType 0x05))
   \<and> handleRequest (Inr [0x05, 0x01, 0x00, 0x01, 0x7F, 0x00, 0x00, 0x01, 0x00, 0x50])
         (\<lambda>_. True) (\<lambda>_ _. False)
       = ([[0x05, 0x04, 0x00, 0x01, 0, 0, 0, 0, 0, 0]], Failed (ConnectFailed (IPv4 0x7F 0 0 1) 80))
   \<and> handleRequest (Inr [0x05, 0x01, 0x00, 0x01, 0x7F, 0x00, 0x00, 0x01, 0x00, 0x50])
         (\<lambda>_. True) (\<lambda>_ _. True)
       = ([[0x05, 0x00, 0x00, 0x01, 0, 0, 0, 0, 0, 0]], Relaying (IPv4 0x7F 0 0 1) 80)
   \<and> HandleConnection (Inr [0x05, 0x01, 0x00])
         (Inr [0x05, 0x01, 0x00, 0x01, 0x7F, 0x00, 0x00, 0x01, 0x00, 0x50]) (\<lambda>_. True) (\<lambda>_ _. True)
       = ([[0x05, 0x00], [0x05, 0x00, 0x00, 0x01, 0, 0, 0, 0, 0, 0]], Relaying (IPv4 0x7F 0 0 1) 80)
   \<and> HandleConnection (Inr [0x05, 0x01, 0x02])
         (Inr [0x05, 0x01, 0x00, 0x01, 0x7F, 0x00, 0x00, 0x01, 0x00, 0x50]) (\<lambda>_. True) (\<lambda>_ _. True)
       = ([[0x05, 0xFF]], Failed (AuthenticationFailed NoAcceptableMethod))
   \<and> fst (handleAuth (Inr [0x05, 0x03, 0x00]) (\<lambda>_. True)) = []
   \<and> snd (handleAuth (Inr [0x05, 0x03, 0x00]) (\<lambda>_. True)) \<noteq> None
   \<and> fst (HandleConnection (Inr [0x05, 0x03, 0x00])
           (Inr [0x05, 0x01, 0x00, 0x01, 0x7F, 0x00, 0x00, 0x01, 0x00, 0x50])
           (\<lambda>_. True) (\<lambda>_ _. True)) = []
   \<and> handleRequest (Inr [0x05, 0x01, 0x00]) (\<lambda>_. True) (\<lambda>_ _. True)
       = ([], Failed InvalidRequest)
   \<and> fst (handleRequest (Inr [0x05, 0x01, 0x00, 0x01, 0x7F, 0x00]) (\<lambda>_. True) (\<lambda>_ _. True)) = []"
proof -
  let ?sel = "[0x05, 0x01, 0x00] :: byte list"
  let ?pw = "[0x05, 0x01, 0x02] :: byte list"
  let ?con = "[0x05, 0x01, 0x00, 0x01, 0x7F, 0x00, 0x00, 0x01, 0x00, 0x50] :: byte list"
  let ?bind = "[0x05, 0x02, 0x00, 0x01, 0x7F, 0x00, 0x00, 0x01, 0x00, 0x50] :: byte list"
  let ?odd = "[0x05, 0x01, 0x00, 0x05, 0x7F, 0x00, 0x00, 0x01, 0x00, 0x50] :: byte list"
  let ?yes = "(\<lambda>_. True) :: byte list \<Rightarrow> bool"
  let ?up = "(\<lambda>_ _. True) :: dest_addr \<Rightarrow> nat \<Rightarrow> bool"
  let ?down = "(\<lambda>_ _. False) :: dest_addr \<Rightarrow> nat \<Rightarrow> bool"
  let ?home = "IPv4 0x7F 0 0 1"
  have sel: "2 \<le> read_len ?sel \<and> read_buf ?sel ! 0 = 0x05
      \<and> 2 + unat (read_buf ?sel ! 1) \<le> read_len ?sel"
    by (simp add: read_len_def read_buf_def)
  have sel0: "\<exists>i < unat (read_buf ?sel ! 1). read_buf ?sel ! (2 + i) = 0x00"
    by (simp add: read_buf_def)
  have pw: "2 \<le> read_len ?pw \<and> read_buf ?pw ! 0 = 0x05
      \<and> 2 + unat (read_buf ?pw ! 1) \<le> read_len ?pw"
    by (simp add: read_len_def read_buf_def)
  have pw0: "\<not> (\<exists>i < unat (read_buf ?pw ! 1). read_buf ?pw ! (2 + i) = 0x00)"
    by (simp add: read_buf_def)
  have bind: "4 \<le> read_len ?bind \<and> read_buf ?bind ! 0 = 0x05 \<and> read_buf ?bind ! 1 \<noteq> 0x01"
    and bind1: "read_buf ?bind ! 1 = 0x02"
    by (simp_all add: read_len_def read_buf_def)
  have odd: "4 \<le> read_len ?odd \<and> read_buf ?odd ! 0 = 0x05 \<and> read_buf ?odd ! 1 = 0x01
        \<and> read_buf ?odd ! 3 \<noteq> 0x01 \<and> read_buf ?odd ! 3 \<noteq> 0x03 \<and> read_buf ?odd ! 3 \<noteq> 0x04"
    and odd3: "read_buf ?odd ! 3 = 0x05"
    by (simp_all add: read_len_def read_buf_def)
  have con: "10 \<le> read_len ?con \<and> read_buf ?con ! 0 = 0x05 \<and> read_buf ?con ! 1 = 0x01
        \<and> read_buf ?con ! 3 = 0x01"
    and dest: "IPv4 (read_buf ?con ! 4) (read_buf ?con ! 5) (read_buf ?con ! 6) (read_buf ?con ! 7)
        = ?home"
      "unat (read_buf ?con ! 8) * 256 + unat (read_buf ?con ! 9) = 80"
    by (simp_all add: read_len_def read_buf_def)
  have yes: "?yes [0x05, 0x00]" "?yes [0x05, 0x00, 0x00, 0x01, 0, 0, 0, 0, 0, 0]"
    and up: "?up ?home 80" and down: "\<not> ?down ?home 80"
    by simp_all
  have a1: "fst (handleAuth (Inr ?sel) ?yes) = [[0x05, 0x00]]
      \<and> snd (handleAuth (Inr ?sel) ?yes) = None"
    using socks5_handshake_replies [where data = ?sel and wr = ?yes and req = ?con
        and dial = ?up and a = ?home and p = 80
        and rerr = ReadFailed and nxt = "Inr ?con"] sel sel0 yes(1)
    by blast
  have a2: "fst (handleAuth (Inr ?pw) ?yes) = [[0x05, 0xFF]]
      \<and> snd (handleAuth (Inr ?pw) ?yes) \<noteq> None"
    using socks5_handshake_replies [where data = ?pw and wr = ?yes and req = ?con
        and dial = ?up and a = ?home and p = 80
        and rerr = ReadFailed and nxt = "Inr ?con"] pw pw0
    by blast
  have r1: "handleRequest (Inr ?bind) ?yes ?up
       = ([[0x05, 0x07, 0x00, 0x01, 0, 0, 0, 0, 0, 0]], Failed (UnsupportedCommand 0x02))"
    using socks5_handshake_replies [where data = ?sel and wr = ?yes and req = ?bind
        and dial = ?up and a = ?home and p = 80
        and rerr = ReadFailed and nxt = "Inr ?con"] bind
    unfolding bind1 by blast
  have r2: "handleRequest (Inr ?odd) ?yes ?up
       = ([[0x05, 0x08, 0x00, 0x01, 0, 0, 0, 0, 0, 0]], Failed (UnsupportedAddressType 0x05))"
    using socks5_handshake_replies [where data = ?sel and wr = ?yes and req = ?odd
        and dial = ?up and a = ?home and p = 80
        and rerr = ReadFailed and nxt = "Inr ?con"] odd
    unfolding odd3 by blast
  have r3: "handleRequest (Inr ?con) ?yes ?down
       = ([[0x05, 0x04, 0x00, 0x01, 0, 0, 0, 0, 0, 0]], Failed (ConnectFailed ?home 80))"
    using socks5_handshake_replies [where data = ?sel and wr = ?yes and req = ?con
        and dial = ?down and a = ?home and p = 80
        and rerr = ReadFailed and nxt = "Inr ?con"] con down
    unfolding dest by metis
  have "handleRequest (Inr ?con) ?yes ?up = connect_to ?yes ?up ?home 80
      \<and> fst (connect_to ?yes ?up ?home 80) = [[0x05, 0x00, 0x00, 0x01, 0, 0, 0, 0, 0, 0]]
      \<and> snd (connect_to ?yes ?up ?home 80) = Relaying ?home 80"
    using socks5_handshake_replies [where data = ?sel and wr = ?yes and req = ?con
        and dial = ?up and a = ?home and p = 80
        and rerr = ReadFailed and nxt = "Inr ?con"] con up yes(2)
    unfolding dest by metis
  then have r4: "handleRequest (Inr ?con) ?yes ?up
       = ([[0x05, 0x00, 0x00, 0x01, 0, 0, 0, 0, 0, 0]], Relaying ?home 80)"
    by (simp add: prod_eq_iff)
  have a1': "handleAuth (Inr ?sel) ?yes = ([[0x05, 0x00]], None)"
    using a1 by (simp add: prod_eq_iff)
  have e: "handleAuth (Inr ?pw) ?yes = ([[0x05, 0xFF]], Some NoAcceptableMethod)"
    by (simp add: handleAuth_def Let_def read_len_def read_buf_def)
  have h1: "HandleConnection (Inr ?sel) (Inr ?con) ?yes ?up
       = ([[0x05, 0x00], [0x05, 0x00, 0x00, 0x01, 0, 0, 0, 0, 0, 0]], Relaying ?home 80)"
    by (simp add: HandleConnection_def a1' r4)
  have h2: "HandleConnection (Inr ?pw) (Inr ?con) ?yes ?up
       = ([[0x05, 0xFF]], Failed (AuthenticationFailed NoAcceptableMethod))"
    by (simp add: HandleConnection_def e)
  let ?cut = "[0x05, 0x03, 0x00] :: byte list"
  let ?short = "[0x05, 0x01, 0x00] :: byte list"
  let ?part = "[0x05, 0x01, 0x00, 0x01, 0x7F, 0x00] :: byte list"
  have cut: "read_len ?cut < 2 \<or> read_buf ?cut ! 0 \<noteq> 0x05
      \<or> read_len ?cut < 2 + unat (read_buf ?cut ! 1)"
    by (simp add: read_len_def read_buf_def)
  have short: "read_len ?short < 4 \<or> read_buf ?short ! 0 \<noteq> 0x05"
    by (simp add: read_len_def)
  have part: "4 \<le> read_len ?part \<and> read_buf ?part ! 0 = 0x05 \<and> read_buf ?part ! 1 = 0x01
        \<and> ((read_buf ?part ! 3 = 0x01 \<and> read_len ?part < 10)
           \<or> (read_buf ?part ! 3 = 0x03 \<and> read_len ?part < 7 + unat (read_buf ?part ! 4))
           \<or> (read_buf ?part ! 3 = 0x04 \<and> read_len ?part < 22))"
    by (simp add: read_len_def read_buf_def)
  note t1 = socks5_handshake_replies [where data = ?cut and wr = ?yes and req = ?short
        and dial = ?up and a = ?home and p = 80 and rerr = ReadFailed and nxt = "Inr ?con"]
  note t2 = socks5_handshake_replies [where data = ?cut and wr = ?yes and req = ?part
        and dial = ?up and a = ?home and p = 80 and rerr = ReadFailed and nxt = "Inr ?con"]
  have n1: "fst (handleAuth (Inr ?cut) ?yes) = [] \<and> snd (handleAuth (Inr ?cut) ?yes) \<noteq> None"
    using t1 [THEN conjunct2, THEN conjunct2, THEN conjunct2, THEN conjunct2, THEN conjunct2, THEN conjunct2, THEN conjunct2, THEN conjunct2, THEN conjunct2, THEN conjunct1] cut by (rule mp)
  have n2: "fst (HandleConnection (Inr ?cut) (Inr ?con) ?yes ?up) = fst (handleAuth (Inr ?cut) ?yes)"
    using t1 [THEN conjunct2, THEN conjunct2, THEN conjunct2, THEN conjunct2, THEN conjunct2, THEN conjunct2, THEN conjunct2, THEN conjunct2, THEN conjunct2, THEN conjunct2, THEN conjunct2, THEN conjunct1] n1 by simp
  have n3: "handleRequest (Inr ?short) ?yes ?up = ([], Failed InvalidRequest)"
    using t1 [THEN conjunct2, THEN conjunct2, THEN conjunct2, THEN conjunct2, THEN conjunct2, THEN conjunct2, THEN conjunct2, THEN conjunct2, THEN conjunct2, THEN conjunct2, THEN conjunct2, THEN conjunct2, THEN conjunct2, THEN conjunct1] short by (rule mp)
  have n4: "fst (handleRequest (Inr ?part) ?yes ?up) = []"
    using t2 [THEN conjunct2, THEN conjunct2, THEN conjunct2, THEN conjunct2, THEN conjunct2,
      THEN conjunct2, THEN conjunct2, THEN conjunct2, THEN conjunct2, THEN conjunct2,
      THEN conjunct2, THEN conjunct2, THEN conjunct2, THEN conjunct2] part
    by simp
  show ?thesis using a1' a2 r1 r2 r3 r4 h1 h2 n1 n2 n3 n4 by simp
qed

definition write_ok :: "byte list \<Rightarrow> bool" where
  "write_ok response = True"

definition greeting_255 :: "byte list" where
  "greeting_255 = 0x05 # 0xFF # replicate 255 0x00"

lemma greeting_255_read: "read_len greeting_255 = 256" "read_buf greeting_255 ! 0 = 0x05"
  "read_buf greeting_255 ! 1 = 0xFF" "read_buf greeting_255 ! 2 = 0x00"
  by (simp_all add: read_len_def read_buf_def greeting_255_def)

text \<open>
  Claim C4 as stated fails: a method selection is not always answered. The request that
  announces 255 methods, all of them \<open>00\<close>, is 257 bytes long, of which one read into
  the 256-byte buffer delivers 256: the server ends without a reply. So it does for the
  request \<open>05 03 00\<close>, which announces three methods and carries one, and for
  \<open>04 01 00\<close>, of another version.
\<close>

theorem handleAuth_no_reply_counterexample:
  "length greeting_255 = 2 + unat (greeting_255 ! 1)
   \<and> greeting_255 ! 0 = 0x05 \<and> greeting_255 ! 2 = 0x00
   \<and> handleAuth (Inr greeting_255) write_ok = ([], Some InvalidAuthRequest)
   \<and> handleAuth (Inr [0x05, 0x03, 0x00]) write_ok = ([], Some InvalidAuthRequest)
   \<and> handleAuth (Inr [0x04, 0x01, 0x00]) write_ok = ([], Some InvalidVersion)"
proof -
  have a: "handleAuth (Inr greeting_255) write_ok = ([], Some InvalidAuthRequest)"
    unfolding handleAuth_def Let_def sum.case greeting_255_read by simp
  have b: "handleAuth (Inr [0x05, 0x03, 0x00]) write_ok = ([], Some InvalidAuthRequest)"
    "handleAuth (Inr [0x04, 0x01, 0x00]) write_ok = ([], Some InvalidVersion)"
    by (simp_all add: handleAuth_def Let_def read_len_def read_buf_def)
  have c: "length greeting_255 = 2 + unat (greeting_255 ! 1)"
    "greeting_255 ! 0 = 0x05" "greeting_255 ! 2 = 0x00"
    by (simp_all add: greeting_255_def)
  show ?thesis using a b c by simp
qed

section \<open>Clash exporter\<close>

text \<open>
  The exporter reads the tunnel rows the repository returns (\<^verbatim>\<open>GetAll\<close>: the rows that
  are not deleted) and, per tunnel, the host record of its host id, of which it uses the
  name only. \<^verbatim>\<open>sort.Slice\<close> is modelled by an insertion sort on the local port (what the
  Go library runs on slices of at most twelve elements); the properties below hold for any
  sort by local port. The insertion sort keeps tunnels of equal port in their order, which
  \<^verbatim>\<open>sort.Slice\<close> does not promise on longer slices; nothing below depends on it.
\<close>

record ClashProxy =
  px_Name :: string
  px_Type :: string
  px_Server :: string
  px_Port :: int

record ClashProxyGroup =
  grp_Name :: string
  grp_Type :: string
  grp_Proxies :: "string list"
  grp_URL :: string
  grp_Interval :: int

record ClashDNS =
  dns_Enable :: bool
  dns_Listen :: string
  dns_NameServer :: "string list"
  dns_EnhancedMode :: string
  dns_FakeIPRange :: string
  dns_UseHosts :: bool
  dns_FakeIPFilter :: "string list"

record ClashConfig =
  cfg_Port :: int
  cfg_SocksPort :: int
  cfg_AllowLan :: bool
  cfg_Mode :: string
  cfg_LogLevel :: string
  cfg_ExternalUI :: string
  cfg_ExternalController :: string
  cfg_Proxies :: "ClashProxy list"
  cfg_ProxyGroups :: "ClashProxyGroup list"
  cfg_Rules :: "string list"
  cfg_DNS :: ClashDNS

datatype export_error = NoActiveSocks5Tunnels

text \<open>\<^verbatim>\<open>%d\<close> of \<^verbatim>\<open>fmt.Sprintf\<close>: the decimal digits of an integer, with a minus sign.\<close>

fun decimal :: "nat \<Rightarrow> string" where
  "decimal n = (if n < 10 then [char_of (48 + n)] else decimal (n div 10) @ [char_of (48 + n mod 10)])"

declare decimal.simps [simp del]

definition Sprintf_d :: "int \<Rightarrow> string" where
  "Sprintf_d i = (if i < 0 then CHR ''-'' # decimal (nat (- i)) else decimal (nat i))"

definition GetActiveSocks5Tunnels :: "Tunnel list \<Rightarrow> Tunnel list" where
  "GetActiveSocks5Tunnels allTunnels =
     sort_key LocalPort (filter (\<lambda>t. Type t = ''dynamic'' \<and> Status t = ''active'') allTunnels)"

definition socks5_proxy :: "string \<Rightarrow> Tunnel \<Rightarrow> ClashProxy" where
  "socks5_proxy hostName t =
     \<lparr>px_Name = ''drilling-'' @ sanitizeName hostName @ ''-'' @ Sprintf_d (LocalPort t),
      px_Type = ''socks5'', px_Server = LocalAddress t, px_Port = LocalPort t\<rparr>"

fun proxy_nodes :: "(nat \<Rightarrow> string option) \<Rightarrow> Tunnel list \<Rightarrow> ClashProxy list" where
  "proxy_nodes hostName [] = []"
| "proxy_nodes hostName (t # ts) =
     (case hostName (HostID t) of
        None \<Rightarrow> proxy_nodes hostName ts
      | Some name \<Rightarrow> socks5_proxy name t # proxy_nodes hostName ts)"

definition proxy_groups :: "string list \<Rightarrow> ClashProxyGroup list" where
  "proxy_groups proxyNames =
     (if length proxyNames > 0 then
        (let autoGroup = \<lparr>grp_Name = ''Auto'', grp_Type = ''url-test'', grp_Proxies = proxyNames,
               grp_URL = ''http://www.gstatic.com/generate_204'', grp_Interval = 300\<rparr>;
             selectGroup = \<lparr>grp_Name = ''Proxy'', grp_Type = ''select'',
               grp_Proxies = [''Auto'', ''DIRECT''] @ proxyNames, grp_URL = [], grp_Interval = 0\<rparr>
         in if length proxyNames > 1 then
              (let loadBalanceGroup = \<lparr>grp_Name = ''LoadBalance'', grp_Type = ''load-balance'',
                     grp_Proxies = proxyNames,
                     grp_URL = ''http://www.gstatic.com/generate_204'', grp_Interval = 300\<rparr>
               in ([autoGroup, selectGroup] @ [loadBalanceGroup])
                    [1 := selectGroup\<lparr>grp_Proxies := [''Auto'', ''LoadBalance'', ''DIRECT''] @ proxyNames\<rparr>])
            else [autoGroup, selectGroup])
      else [])"

definition GenerateClashConfig ::
  "Tunnel list \<Rightarrow> (nat \<Rightarrow> string option) \<Rightarrow> export_error + ClashConfig" where
  "GenerateClashConfig allTunnels hostName =
     (let socks5Tunnels = GetActiveSocks5Tunnels allTunnels
      in if length socks5Tunnels = 0 then Inl NoActiveSocks5Tunnels
         else
           (let proxies = proxy_nodes hostName socks5Tunnels;
                proxyNames = map px_Name proxies
            in Inr \<lparr>cfg_Port = 7890, cfg_SocksPort = 7891, cfg_AllowLan = False,
                    cfg_Mode = ''rule'', cfg_LogLevel = ''info'', cfg_ExternalUI = [],
                    cfg_ExternalController = ''127.0.0.1:9090'',
                    cfg_Proxies = proxies,
                    cfg_ProxyGroups = proxy_groups proxyNames,
                    cfg_Rules =
                      [''DOMAIN-SUFFIX,local,DIRECT'', ''DOMAIN-SUFFIX,localhost,DIRECT'',
                       ''DOMAIN-SUFFIX,lan,DIRECT'', ''IP-CIDR,127.0.0.0/8,DIRECT'',
                       ''IP-CIDR,169.254.0.0/16,DIRECT'', ''IP-CIDR,192.168.0.0/16,DIRECT'',
                       ''IP-CIDR,10.0.0.0/8,DIRECT'', ''IP-CIDR,172.16.0.0/12,DIRECT'',
                       ''IP-CIDR,224.0.0.0/4,DIRECT'', ''IP-CIDR,240.0.0.0/4,DIRECT'',
                       ''GEOIP,CN,DIRECT'', ''MATCH,Proxy''],
                    cfg_DNS = \<lparr>dns_Enable = True, dns_Listen = ''0.0.0.0:53'',
                      dns_NameServer = [''223.5.5.5'', ''1.1.1.1''], dns_EnhancedMode = ''fake-ip'',
                      dns_FakeIPRange = ''198.18.0.1/16'', dns_UseHosts = True,
                      dns_FakeIPFilter = [''*.lan'', ''localhost.ptlogin2.qq.com'',
                        ''dns.msftncsi.com'', ''www.msftncsi.com'', ''www.msftconnecttest.com'']\<rparr>\<rparr>))"

definition socks_home :: Tunnel where
  "socks_home = \<lparr>ID = 1, HostID = 7, Name = ''socks'', Type = ''dynamic'',
     LocalAddress = ''127.0.0.1'', LocalPort = 1080, RemoteAddress = [], RemotePort = 0,
     Description = [], Status = ''active'', AutoStart = False, Deleted = False\<rparr>"

definition socks_office :: Tunnel where
  "socks_office = \<lparr>ID = 2, HostID = 8, Name = ''socks2'', Type = ''dynamic'',
     LocalAddress = ''127.0.0.1'', LocalPort = 1081, RemoteAddress = [], RemotePort = 0,
     Description = [], Status = ''active'', AutoStart = False, Deleted = False\<rparr>"

definition host_names :: "nat \<Rightarrow> string option" where
  "host_names = (\<lambda>i. if i = 7 then Some ''home'' else if i = 8 then Some ''Office PC'' else None)"

lemma GetActive_set:
  "set (GetActiveSocks5Tunnels rows) = {t \<in> set rows. Type t = ''dynamic'' \<and> Status t = ''active''}"
  by (auto simp: GetActiveSocks5Tunnels_def)

lemma GetActive_mset:
  "mset (GetActiveSocks5Tunnels rows)
     = filter_mset (\<lambda>t. Type t = ''dynamic'' \<and> Status t = ''active'') (mset rows)"
  by (simp add: GetActiveSocks5Tunnels_def)

lemma GetActive_sorted: "sorted (map LocalPort (GetActiveSocks5Tunnels rows))"
  by (simp add: GetActiveSocks5Tunnels_def)

lemma GetActive_empty_iff:
  "length (GetActiveSocks5Tunnels rows) = 0 \<longleftrightarrow>
      \<not> (\<exists>t \<in> set rows. Type t = ''dynamic'' \<and> Status t = ''active'')"
  by (simp add: GetActiveSocks5Tunnels_def filter_empty_conv)

lemma proxy_nodes_all_hosts:
  "\<forall>t \<in> set ts. hostName (HostID t) \<noteq> None \<Longrightarrow>
   proxy_nodes hostName ts = map (\<lambda>t. socks5_proxy (the (hostName (HostID t))) t) ts"
  by (induction ts) auto

lemma proxy_groups_select:
  "names \<noteq> [] \<Longrightarrow>
   proxy_groups names ! 1 =
     \<lparr>grp_Name = ''Proxy'', grp_Type = ''select'',
      grp_Proxies = (if length names > 1 then [''Auto'', ''LoadBalance'', ''DIRECT'']
                     else [''Auto'', ''DIRECT'']) @ names,
      grp_URL = [], grp_Interval = 0\<rparr>"
  by (simp add: proxy_groups_def Let_def)

lemma GenerateClashConfig_error_iff:
  "GenerateClashConfig rows hostName = Inl NoActiveSocks5Tunnels \<longleftrightarrow>
     \<not> (\<exists>t \<in> set rows. Type t = ''dynamic'' \<and> Status t = ''active'')"
proof -
  have "length (GetActiveSocks5Tunnels rows) = 0 \<longleftrightarrow>
      \<not> (\<exists>t \<in> set rows. Type t = ''dynamic'' \<and> Status t = ''active'')"
    by (rule GetActive_empty_iff)
  then show ?thesis unfolding GenerateClashConfig_def Let_def by (simp split: if_splits)
qed

lemma GenerateClashConfig_success:
  assumes "\<exists>t \<in> set rows. Type t = ''dynamic'' \<and> Status t = ''active''"
    and "\<forall>t \<in> set rows. Type t = ''dynamic'' \<and> Status t = ''active'' \<longrightarrow> hostName (HostID t) \<noteq> None"
  shows "\<exists>cfg. GenerateClashConfig rows hostName = Inr cfg
      \<and> cfg_Proxies cfg =
          map (\<lambda>t. \<lparr>px_Name = ''drilling-'' @ sanitizeName (the (hostName (HostID t))) @ ''-''
                          @ Sprintf_d (LocalPort t),
                      px_Type = ''socks5'', px_Server = LocalAddress t, px_Port = LocalPort t\<rparr>)
            (GetActiveSocks5Tunnels rows)
      \<and> cfg_ProxyGroups cfg ! 1 =
          \<lparr>grp_Name = ''Proxy'', grp_Type = ''select'',
           grp_Proxies = (if length (cfg_Proxies cfg) > 1 then [''Auto'', ''LoadBalance'', ''DIRECT'']
                          else [''Auto'', ''DIRECT'']) @ map px_Name (cfg_Proxies cfg),
           grp_URL = [], grp_Interval = 0\<rparr>"
proof -
  let ?ts = "GetActiveSocks5Tunnels rows"
  have ne0: "length ?ts \<noteq> 0" using assms(1) GetActive_empty_iff [of rows] by blast
  then have ne: "?ts \<noteq> []" by simp
  have "\<forall>t \<in> set ?ts. hostName (HostID t) \<noteq> None" using assms(2) by (simp add: GetActive_set)
  from proxy_nodes_all_hosts [OF this]
  have p: "proxy_nodes hostName ?ts = map (\<lambda>t. socks5_proxy (the (hostName (HostID t))) t) ?ts" .
  then have pne: "map px_Name (proxy_nodes hostName ?ts) \<noteq> []" using ne by simp
  obtain cfg where c: "GenerateClashConfig rows hostName = Inr cfg"
    and "cfg_Proxies cfg = proxy_nodes hostName ?ts"
    and "cfg_ProxyGroups cfg = proxy_groups (map px_Name (proxy_nodes hostName ?ts))"
    using ne0 unfolding GenerateClashConfig_def Let_def by simp
  then show ?thesis
    using proxy_groups_select [OF pne] p by (simp add: socks5_proxy_def)
qed

text \<open>
  Claim C7, as amended. Generation fails with the no-active-SOCKS5-tunnels error exactly
  when no row the repository returns has kind \<open>dynamic\<close> and status \<open>active\<close>. Otherwise,
  if the host record of every such tunnel exists, the proxies are one \<open>socks5\<close> entry per
  active dynamic tunnel, in ascending order of local port, named
  \<open>drilling-{sanitised host name}-{local port}\<close>, with the tunnel's local address as server
  and its local port as port; and the member list of the \<open>Proxy\<close> select group is
  \<open>Auto, DIRECT\<close> followed by all proxy names when there is one proxy, and
  \<open>Auto, LoadBalance, DIRECT\<close> followed by all proxy names when there are two or more.
\<close>

theorem GenerateClashConfig_proxies_and_select_group:
  "(GenerateClashConfig rows hostName = Inl NoActiveSocks5Tunnels \<longleftrightarrow>
      \<not> (\<exists>t \<in> set rows. Type t = ''dynamic'' \<and> Status t = ''active''))
   \<and> ((\<exists>t \<in> set rows. Type t = ''dynamic'' \<and> Status t = ''active'')
        \<and> (\<forall>t \<in> set rows. Type t = ''dynamic'' \<and> Status t = ''active'' \<longrightarrow>
               hostName (HostID t) \<noteq> None) \<longrightarrow>
       (\<exists>cfg. GenerateClashConfig rows hostName = Inr cfg
          \<and> cfg_Proxies cfg =
              map (\<lambda>t. \<lparr>px_Name = ''drilling-'' @ sanitizeName (the (hostName (HostID t))) @ ''-''
                              @ Sprintf_d (LocalPort t),
                          px_Type = ''socks5'', px_Server = LocalAddress t, px_Port = LocalPort t\<rparr>)
                (GetActiveSocks5Tunnels rows)
          \<and> mset (GetActiveSocks5Tunnels rows)
              = filter_mset (\<lambda>t. Type t = ''dynamic'' \<and> Status t = ''active'') (mset rows)
          \<and> sorted (map LocalPort (GetActiveSocks5Tunnels rows))
          \<and> sorted (map px_Port (cfg_Proxies cfg))
          \<and> cfg_ProxyGroups cfg ! 1 =
              \<lparr>grp_Name = ''Proxy'', grp_Type = ''select'',
               grp_Proxies =
                 (if length (cfg_Proxies cfg) > 1 then [''Auto'', ''LoadBalance'', ''DIRECT'']
                  else [''Auto'', ''DIRECT'']) @ map px_Name (cfg_Proxies cfg),
               grp_URL = [], grp_Interval = 0\<rparr>))"
proof (intro conjI impI)
  show "GenerateClashConfig rows hostName = Inl NoActiveSocks5Tunnels \<longleftrightarrow>
      \<not> (\<exists>t \<in> set rows. Type t = ''dynamic'' \<and> Status t = ''active'')"
    by (rule GenerateClashConfig_error_iff)
next
  assume a: "(\<exists>t \<in> set rows. Type t = ''dynamic'' \<and> Status t = ''active'')
        \<and> (\<forall>t \<in> set rows. Type t = ''dynamic'' \<and> Status t = ''active'' \<longrightarrow>
               hostName (HostID t) \<noteq> None)"
  from GenerateClashConfig_success [OF conjunct1 [OF a] conjunct2 [OF a]]
  obtain cfg where c: "GenerateClashConfig rows hostName = Inr cfg"
    and p: "cfg_Proxies cfg =
          map (\<lambda>t. \<lparr>px_Name = ''drilling-'' @ sanitizeName (the (hostName (HostID t))) @ ''-''
                          @ Sprintf_d (LocalPort t),
                      px_Type = ''socks5'', px_Server = LocalAddress t, px_Port = LocalPort t\<rparr>)
            (GetActiveSocks5Tunnels rows)"
    and g: "cfg_ProxyGroups cfg ! 1 =
          \<lparr>grp_Name = ''Proxy'', grp_Type = ''select'',
           grp_Proxies = (if length (cfg_Proxies cfg) > 1 then [''Auto'', ''LoadBalance'', ''DIRECT'']
                          else [''Auto'', ''DIRECT'']) @ map px_Name (cfg_Proxies cfg),
           grp_URL = [], grp_Interval = 0\<rparr>"
    by blast
  have "map px_Port (cfg_Proxies cfg) = map LocalPort (GetActiveSocks5Tunnels rows)"
    unfolding p by (simp add: comp_def)
  then have "sorted (map px_Port (cfg_Proxies cfg))" by (simp add: GetActive_sorted)
  then show "\<exists>cfg. GenerateClashConfig rows hostName = Inr cfg
          \<and> cfg_Proxies cfg =
              map (\<lambda>t. \<lparr>px_Name = ''drilling-'' @ sanitizeName (the (hostName (HostID t))) @ ''-''
                              @ Sprintf_d (LocalPort t),
                          px_Type = ''socks5'', px_Server = LocalAddress t, px_Port = LocalPort t\<rparr>)
                (GetActiveSocks5Tunnels rows)
          \<and> mset (GetActiveSocks5Tunnels rows)
              = filter_mset (\<lambda>t. Type t = ''dynamic'' \<and> Status t = ''active'') (mset rows)
          \<and> sorted (map LocalPort (GetActiveSocks5Tunnels rows))
          \<and> sorted (map px_Port (cfg_Proxies cfg))
          \<and> cfg_ProxyGroups cfg ! 1 =
              \<lparr>grp_Name = ''Proxy'', grp_Type = ''select'',
               grp_Proxies =
                 (if length (cfg_Proxies cfg) > 1 then [''Auto'', ''LoadBalance'', ''DIRECT'']
                  else [''Auto'', ''DIRECT'']) @ map px_Name (cfg_Proxies cfg),
               grp_URL = [], grp_Interval = 0\<rparr>"
    using c p g GetActive_mset [of rows] GetActive_sorted [of rows] by blast
qed

lemma Sprintf_d_1080: "Sprintf_d 1080 = ''1080''"
  by code_simp

lemma Sprintf_d_1081: "Sprintf_d 1081 = ''1081''"
  by code_simp

lemma sanitizeName_home: "sanitizeName ''home'' = ''home''"
  by code_simp

lemma sanitizeName_office: "sanitizeName ''Office PC'' = ''Office-PC''"
  by code_simp

lemma GetActive_home: "GetActiveSocks5Tunnels [socks_home] = [socks_home]"
  by (simp add: GetActiveSocks5Tunnels_def socks_home_def)

lemma GetActive_both: "GetActiveSocks5Tunnels [socks_office, socks_home] = [socks_home, socks_office]"
  by (simp add: GetActiveSocks5Tunnels_def socks_home_def socks_office_def)

theorem GenerateClashConfig_proxies_and_select_group_witness:
  "GenerateClashConfig [] host_names = Inl NoActiveSocks5Tunnels
   \<and> \<not> isl (GenerateClashConfig [socks_home] host_names)
   \<and> cfg_Proxies (projr (GenerateClashConfig [socks_home] host_names))
       = [\<lparr>px_Name = ''drilling-home-1080'', px_Type = ''socks5'', px_Server = ''127.0.0.1'',
           px_Port = 1080\<rparr>]
   \<and> grp_Name (cfg_ProxyGroups (projr (GenerateClashConfig [socks_home] host_names)) ! 1) = ''Proxy''
   \<and> grp_Proxies (cfg_ProxyGroups (projr (GenerateClashConfig [socks_home] host_names)) ! 1)
       = [''Auto'', ''DIRECT'', ''drilling-home-1080'']"
proof -
  note t0 = GenerateClashConfig_proxies_and_select_group [of "[]" host_names]
  note t1 = GenerateClashConfig_proxies_and_select_group [of "[socks_home]" host_names]
  have e: "GenerateClashConfig [] host_names = Inl NoActiveSocks5Tunnels"
    using t0 by simp
  have h1: "\<exists>t \<in> set [socks_home]. Type t = ''dynamic'' \<and> Status t = ''active''"
    and h2: "\<forall>t \<in> set [socks_home]. Type t = ''dynamic'' \<and> Status t = ''active'' \<longrightarrow>
               host_names (HostID t) \<noteq> None"
    by (simp_all add: socks_home_def host_names_def)
  from t1 h1 h2 obtain cfg where c: "GenerateClashConfig [socks_home] host_names = Inr cfg"
    and p: "cfg_Proxies cfg =
              map (\<lambda>t. \<lparr>px_Name = ''drilling-'' @ sanitizeName (the (host_names (HostID t))) @ ''-''
                              @ Sprintf_d (LocalPort t),
                          px_Type = ''socks5'', px_Server = LocalAddress t, px_Port = LocalPort t\<rparr>)
                (GetActiveSocks5Tunnels [socks_home])"
    and g: "cfg_ProxyGroups cfg ! 1 =
              \<lparr>grp_Name = ''Proxy'', grp_Type = ''select'',
               grp_Proxies =
                 (if length (cfg_Proxies cfg) > 1 then [''Auto'', ''LoadBalance'', ''DIRECT'']
                  else [''Auto'', ''DIRECT'']) @ map px_Name (cfg_Proxies cfg),
               grp_URL = [], grp_Interval = 0\<rparr>"
    by blast
  have p': "cfg_Proxies cfg = [\<lparr>px_Name = ''drilling-home-1080'', px_Type = ''socks5'',
      px_Server = ''127.0.0.1'', px_Port = 1080\<rparr>]"
    unfolding p GetActive_home
    by (simp add: socks_home_def host_names_def sanitizeName_home Sprintf_d_1080)
  show ?thesis using e c p' g by simp
qed

text \<open>
  Claim C7 as stated fails on the order of the select group: with two active dynamic
  tunnels the member list of \<open>Proxy\<close> is \<open>Auto, LoadBalance, DIRECT\<close> and then the proxy
  names, so it does not start with \<open>Auto, DIRECT\<close>.
\<close>

theorem GenerateClashConfig_select_group_counterexample:
  "\<not> isl (GenerateClashConfig [socks_office, socks_home] host_names)
   \<and> cfg_ProxyGroups (projr (GenerateClashConfig [socks_office, socks_home] host_names)) ! 1
       = \<lparr>grp_Name = ''Proxy'', grp_Type = ''select'',
          grp_Proxies = [''Auto'', ''LoadBalance'', ''DIRECT'', ''drilling-home-1080'',
                         ''drilling-Office-PC-1081''],
          grp_URL = [], grp_Interval = 0\<rparr>
   \<and> take 2 (grp_Proxies
         (cfg_ProxyGroups (projr (GenerateClashConfig [socks_office, socks_home] host_names)) ! 1))
       \<noteq> [''Auto'', ''DIRECT'']"
proof -
  have "proxy_nodes host_names [socks_home, socks_office] =
     [\<lparr>px_Name = ''drilling-home-1080'', px_Type = ''socks5'', px_Server = ''127.0.0.1'',
       px_Port = 1080\<rparr>,
      \<lparr>px_Name = ''drilling-Office-PC-1081'', px_Type = ''socks5'', px_Server = ''127.0.0.1'',
       px_Port = 1081\<rparr>]"
    by (simp add: socks5_proxy_def socks_home_def socks_office_def host_names_def
        sanitizeName_home sanitizeName_office Sprintf_d_1080 Sprintf_d_1081)
  then show ?thesis
    unfolding GenerateClashConfig_def Let_def GetActive_both
    by (simp add: proxy_groups_def)
qed

section \<open>Host secret store\<close>

subsection \<open>Strings and bytes\<close>

text \<open>
  A Go string is a sequence of bytes; \<^verbatim>\<open>[]byte(s)\<close> and \<^verbatim>\<open>string(b)\<close> copy it.
\<close>

definition bytes_of :: "string \<Rightarrow> byte list" where
  "bytes_of s = map (\<lambda>c. of_nat (of_char c)) s"

definition string_of :: "byte list \<Rightarrow> string" where
  "string_of bs = map (\<lambda>b. char_of (unat b)) bs"

subsection \<open>URL-safe base64 with padding\<close>

text \<open>
  \<^verbatim>\<open>base64.URLEncoding\<close> of the Go library: the alphabet \<open>A-Z a-z 0-9 - _\<close>, padding
  with \<open>=\<close>. Three bytes are cut into four six-bit values; a final group of one or two
  bytes gives two or three characters and padding. The decoder skips carriage returns and
  line feeds, takes four characters at a time, accepts padding only in the last group, does
  not check the unused bits of the last group, and rejects everything else with a
  \<^verbatim>\<open>CorruptInputError\<close>, whose message starts with \<^verbatim>\<open>illegal base64 data\<close>.
\<close>

definition encodeURL :: string where
  "encodeURL = ''ABCDEFGHIJKLMNOPQRSTUVWXYZabcdefghijklmnopqrstuvwxyz0123456789-_''"

definition enc6 :: "nat \<Rightarrow> char" where
  "enc6 n = encodeURL ! n"

definition dec6 :: "char \<Rightarrow> nat option" where
  "dec6 c = map_of (zip encodeURL [0..<64]) c"

text \<open>The six-bit values of a group of three bytes, and the bytes of four six-bit values.\<close>

definition sextet0 :: "byte \<Rightarrow> nat" where "sextet0 a = unat a div 4"
definition sextet1 :: "byte \<Rightarrow> byte \<Rightarrow> nat" where "sextet1 a b = (unat a mod 4) * 16 + unat b div 16"
definition sextet2 :: "byte \<Rightarrow> byte \<Rightarrow> nat" where "sextet2 b c = (unat b mod 16) * 4 + unat c div 64"
definition sextet3 :: "byte \<Rightarrow> nat" where "sextet3 c = unat c mod 64"

definition octet0 :: "nat \<Rightarrow> nat \<Rightarrow> byte" where "octet0 s0 s1 = of_nat (s0 * 4 + s1 div 16)"
definition octet1 :: "nat \<Rightarrow> nat \<Rightarrow> byte" where "octet1 s1 s2 = of_nat ((s1 mod 16) * 16 + s2 div 4)"
definition octet2 :: "nat \<Rightarrow> nat \<Rightarrow> byte" where "octet2 s2 s3 = of_nat ((s2 mod 4) * 64 + s3)"

fun EncodeToString :: "byte list \<Rightarrow> string" where
  "EncodeToString (a # b # c # rest) =
     [enc6 (sextet0 a), enc6 (sextet1 a b), enc6 (sextet2 b c), enc6 (sextet3 c)]
       @ EncodeToString rest"
| "EncodeToString [a, b] = [enc6 (sextet0 a), enc6 (sextet1 a b), enc6 (sextet2 b 0), CHR ''='']"
| "EncodeToString [a] = [enc6 (sextet0 a), enc6 (sextet1 a 0), CHR ''='', CHR ''='']"
| "EncodeToString [] = []"

datatype crypto_error =
    CorruptInputError
  | KeySizeError nat
  | CiphertextTooShort
  | RandomSourceFailed
  | DecryptPasswordFailed crypto_error
  | DecryptPrivateKeyFailed crypto_error
  | DecryptPassphraseFailed crypto_error
  | GetHostDecryptFailed crypto_error
  | HostNotFound

fun decode_quanta :: "string \<Rightarrow> crypto_error + byte list" where
  "decode_quanta [] = Inr []"
| "decode_quanta (c0 # c1 # c2 # c3 # rest) =
     (case (dec6 c0, dec6 c1) of
        (Some s0, Some s1) \<Rightarrow>
          (case dec6 c2 of
             None \<Rightarrow>
               if c2 = CHR ''='' \<and> c3 = CHR ''='' \<and> rest = [] then Inr [octet0 s0 s1]
               else Inl CorruptInputError
           | Some s2 \<Rightarrow>
               (case dec6 c3 of
                  None \<Rightarrow>
                    if c3 = CHR ''='' \<and> rest = [] then Inr [octet0 s0 s1, octet1 s1 s2]
                    else Inl CorruptInputError
                | Some s3 \<Rightarrow>
                    (case decode_quanta rest of
                       Inl err \<Rightarrow> Inl err
                     | Inr bs \<Rightarrow> Inr ([octet0 s0 s1, octet1 s1 s2, octet2 s2 s3] @ bs))))
      | _ \<Rightarrow> Inl CorruptInputError)"
| "decode_quanta _ = Inl CorruptInputError"

definition DecodeString :: "string \<Rightarrow> crypto_error + byte list" where
  "DecodeString s = decode_quanta (filter (\<lambda>c. c \<noteq> CHR 0x0A \<and> c \<noteq> CHR 0x0D) s)"

subsection \<open>AES in CFB mode\<close>

text \<open>
  The block cipher itself (\<^verbatim>\<open>crypto/aes\<close>) is a parameter \<open>E\<close>: a key and a 16-byte
  block give a 16-byte block. \<^verbatim>\<open>aes.NewCipher\<close> accepts keys of 16, 24 or 32 bytes.
  \<^verbatim>\<open>XORKeyStream\<close> of the CFB encrypter and decrypter encrypts the previous ciphertext
  block (first the IV) and xors it onto the next 16 bytes, or onto the shorter rest.
\<close>

definition NewCipher ::
  "(byte list \<Rightarrow> byte list \<Rightarrow> byte list) \<Rightarrow> byte list \<Rightarrow> crypto_error + (byte list \<Rightarrow> byte list)" where
  "NewCipher E key =
     (if length key = 16 \<or> length key = 24 \<or> length key = 32 then Inr (E key)
      else Inl (KeySizeError (length key)))"

definition XORBytes :: "byte list \<Rightarrow> byte list \<Rightarrow> byte list" where
  "XORBytes x y = map2 (XOR) x y"

function CFBEncrypter :: "(byte list \<Rightarrow> byte list) \<Rightarrow> byte list \<Rightarrow> byte list \<Rightarrow> byte list" where
  "CFBEncrypter block next src =
     (if src = [] then []
      else (let dst = XORBytes (take 16 src) (block next)
            in dst @ CFBEncrypter block dst (drop 16 src)))"
  by pat_completeness auto
termination
  by (relation "measure (\<lambda>(block, next, src). length src)") auto

function CFBDecrypter :: "(byte list \<Rightarrow> byte list) \<Rightarrow> byte list \<Rightarrow> byte list \<Rightarrow> byte list" where
  "CFBDecrypter block next src =
     (if src = [] then []
      else XORBytes (take 16 src) (block next) @ CFBDecrypter block (take 16 src) (drop 16 src))"
  by pat_completeness auto
termination
  by (relation "measure (\<lambda>(block, next, src). length src)") auto

declare CFBEncrypter.simps [simp del] CFBDecrypter.simps [simp del]

subsection \<open>Host service\<close>

text \<open>\<^verbatim>\<open>NewHostService\<close>: the configured key string, zero-padded or cut to 32 bytes.\<close>

definition NewHostService_key :: "string \<Rightarrow> byte list" where
  "NewHostService_key encryptKey =
     (let key = bytes_of encryptKey
      in if length key < 32 then key @ replicate (32 - length key) 0
         else if length key > 32 then take 32 key
         else key)"

text \<open>
  \<^verbatim>\<open>encrypt\<close>: \<open>rnd\<close> is what \<^verbatim>\<open>io.ReadFull(rand.Reader, iv)\<close> delivers, 16 bytes or a
  failure.
\<close>

definition encrypt ::
  "(byte list \<Rightarrow> byte list \<Rightarrow> byte list) \<Rightarrow> byte list \<Rightarrow> byte list option \<Rightarrow> string
     \<Rightarrow> crypto_error + string" where
  "encrypt E encryptKey rnd plaintext =
     (case NewCipher E encryptKey of
        Inl err \<Rightarrow> Inl err
      | Inr block \<Rightarrow>
          (case rnd of
             None \<Rightarrow> Inl RandomSourceFailed
           | Some iv \<Rightarrow>
               Inr (EncodeToString (iv @ CFBEncrypter block iv (bytes_of plaintext)))))"

definition decrypt ::
  "(byte list \<Rightarrow> byte list \<Rightarrow> byte list) \<Rightarrow> byte list \<Rightarrow> string \<Rightarrow> crypto_error + string" where
  "decrypt E encryptKey ciphertext =
     (case DecodeString ciphertext of
        Inl err \<Rightarrow> Inl err
      | Inr ciphertextBytes \<Rightarrow>
          (case NewCipher E encryptKey of
             Inl err \<Rightarrow> Inl err
           | Inr block \<Rightarrow>
               if length ciphertextBytes < 16 then Inl CiphertextTooShort
               else Inr (string_of (CFBDecrypter block (take 16 ciphertextBytes)
                                      (drop 16 ciphertextBytes)))))"

lemma encodeURL_length: "length encodeURL = 64"
  by (simp add: encodeURL_def)

lemma encodeURL_distinct: "distinct encodeURL"
  unfolding encodeURL_def by code_simp

lemma dec6_enc6: "n < 64 \<Longrightarrow> dec6 (enc6 n) = Some n"
  unfolding dec6_def enc6_def
  using map_of_zip_nth [of encodeURL "[0..<64]" n] encodeURL_length encodeURL_distinct
  by simp

lemma enc6_in_alphabet: "n < 64 \<Longrightarrow> enc6 n \<in> set encodeURL"
  by (simp add: enc6_def encodeURL_length)

lemma alphabet_plain:
  "CHR ''='' \<notin> set encodeURL" "CHR 0x0A \<notin> set encodeURL" "CHR 0x0D \<notin> set encodeURL"
  unfolding encodeURL_def by code_simp+

lemma enc6_plain:
  assumes "n < 64"
  shows "enc6 n \<noteq> CHR ''=''" "enc6 n \<noteq> CHR 0x0A" "enc6 n \<noteq> CHR 0x0D"
  using enc6_in_alphabet [OF assms] alphabet_plain by auto

lemma sextet_bounds:
  "sextet0 a < 64" "sextet1 a b < 64" "sextet2 b c < 64" "sextet3 c < 64"
  using unsigned_less [of a, where ?'a = nat] unsigned_less [of b, where ?'a = nat]
    unsigned_less [of c, where ?'a = nat]
  by (simp_all add: sextet0_def sextet1_def sextet2_def sextet3_def)

lemma regroup:
  "octet0 (sextet0 a) (sextet1 a b) = a"
  "octet1 (sextet1 a b) (sextet2 b c) = b"
  "octet2 (sextet2 b c) (sextet3 c) = c"
  using unsigned_less [of a, where ?'a = nat] unsigned_less [of b, where ?'a = nat]
    unsigned_less [of c, where ?'a = nat]
  by (simp_all add: sextet0_def sextet1_def sextet2_def sextet3_def octet0_def octet1_def
      octet2_def)

lemma dec6_pad: "dec6 CHR ''='' = None"
  using alphabet_plain(1) map_of_zip_is_None [of encodeURL "[0..<64]" "CHR ''=''"]
  by (simp add: dec6_def encodeURL_length)

lemma decode_quanta_EncodeToString: "decode_quanta (EncodeToString bs) = Inr bs"
  by (induction bs rule: EncodeToString.induct)
    (simp_all add: dec6_enc6 dec6_pad sextet_bounds regroup)

lemma EncodeToString_no_newlines:
  "filter (\<lambda>c. c \<noteq> CHR 0x0A \<and> c \<noteq> CHR 0x0D) (EncodeToString bs) = EncodeToString bs"
  by (induction bs rule: EncodeToString.induct) (simp_all add: enc6_plain sextet_bounds)

lemma DecodeString_EncodeToString: "DecodeString (EncodeToString bs) = Inr bs"
  by (simp add: DecodeString_def EncodeToString_no_newlines decode_quanta_EncodeToString)

lemma XORBytes_length: "length (XORBytes x y) = min (length x) (length y)"
  by (simp add: XORBytes_def)

lemma XORBytes_cancel: "length x \<le> length k \<Longrightarrow> XORBytes (XORBytes x k) k = x"
proof (induction x arbitrary: k)
  case Nil
  then show ?case by (simp add: XORBytes_def)
next
  case (Cons a x)
  then obtain b k' where "k = b # k'" by (cases k) auto
  then show ?case using Cons by (simp add: XORBytes_def xor.assoc)
qed

lemma CFB_round_trip:
  "(\<And>x. length (block x) = 16) \<Longrightarrow> CFBDecrypter block iv (CFBEncrypter block iv src) = src"
proof (induction block iv src rule: CFBEncrypter.induct)
  case (1 block "next" src)
  note assms = "1.prems"
  show ?case
  proof (cases "src = []")
    case True
    then show ?thesis by (simp add: CFBEncrypter.simps CFBDecrypter.simps)
  next
    case False
    define dst where "dst = XORBytes (take 16 src) (block next)"
    have ld: "length dst = min (length src) 16"
      by (simp add: dst_def XORBytes_length assms min.commute)
    have enc: "CFBEncrypter block next src = dst @ CFBEncrypter block dst (drop 16 src)"
      using False by (subst CFBEncrypter.simps) (simp add: dst_def Let_def)
    have tk: "take 16 (dst @ CFBEncrypter block dst (drop 16 src)) = dst"
    proof (cases "length src \<le> 16")
      case True
      then have "drop 16 src = []" by simp
      then show ?thesis using ld by (simp add: CFBEncrypter.simps)
    next
      case False
      then show ?thesis using ld by simp
    qed
    have dr: "drop 16 (dst @ CFBEncrypter block dst (drop 16 src))
        = CFBEncrypter block dst (drop 16 src)"
    proof (cases "length src \<le> 16")
      case True
      then have "drop 16 src = []" by simp
      then show ?thesis using ld by (simp add: CFBEncrypter.simps)
    next
      case False
      then show ?thesis using ld by simp
    qed
    have x: "XORBytes dst (block next) = take 16 src"
      unfolding dst_def by (rule XORBytes_cancel) (simp add: assms)
    have ne: "dst @ CFBEncrypter block dst (drop 16 src) \<noteq> []"
    proof -
      have "0 < length src" using False by simp
      then have "0 < length dst" using ld by simp
      then show ?thesis by auto
    qed
    define c where "c = dst @ CFBEncrypter block dst (drop 16 src)"
    have "CFBDecrypter block next c
        = XORBytes (take 16 c) (block next) @ CFBDecrypter block (take 16 c) (drop 16 c)"
      using ne unfolding c_def [symmetric] by (subst CFBDecrypter.simps) simp
    then have "CFBDecrypter block next (dst @ CFBEncrypter block dst (drop 16 src))
        = take 16 src @ CFBDecrypter block dst (CFBEncrypter block dst (drop 16 src))"
      unfolding c_def tk dr x .
    also have "\<dots> = take 16 src @ drop 16 src"
      using "1.IH" [OF False dst_def assms] by simp
    finally show ?thesis by (simp add: enc)
  qed
qed

text \<open>
  \<^verbatim>\<open>models.Host\<close>, reduced to its id and the three secret fields the host service
  encrypts and decrypts; the other fields are not touched.
\<close>

record Host =
  host_ID :: nat
  Password :: string
  PrivateKey :: string
  Passphrase :: string

text \<open>
  One field of \<^verbatim>\<open>DecryptSensitiveData\<close>: an empty field is skipped; a decrypted value
  replaces the field; an error whose message contains \<^verbatim>\<open>illegal base64 data\<close> (of the
  errors \<^verbatim>\<open>decrypt\<close> can return, the decoder's \<^verbatim>\<open>CorruptInputError\<close> only) leaves
  the field as it is; any other error is returned.
\<close>

definition illegal_base64_data :: "crypto_error \<Rightarrow> bool" where
  "illegal_base64_data err = (err = CorruptInputError)"

definition decrypt_field ::
  "(byte list \<Rightarrow> byte list \<Rightarrow> byte list) \<Rightarrow> byte list \<Rightarrow> string \<Rightarrow> crypto_error option \<times> string" where
  "decrypt_field E encryptKey field =
     (if field = [] then (None, field)
      else (case decrypt E encryptKey field of
              Inr decrypted \<Rightarrow> (None, decrypted)
            | Inl err \<Rightarrow> if illegal_base64_data err then (None, field) else (Some err, field)))"

definition DecryptSensitiveData ::
  "(byte list \<Rightarrow> byte list \<Rightarrow> byte list) \<Rightarrow> byte list \<Rightarrow> Host \<Rightarrow> crypto_error option \<times> Host" where
  "DecryptSensitiveData E encryptKey host =
     (case decrypt_field E encryptKey (Password host) of
        (Some err, _) \<Rightarrow> (Some (DecryptPasswordFailed err), host)
      | (None, password) \<Rightarrow>
          (let host1 = host\<lparr>Password := password\<rparr>
           in case decrypt_field E encryptKey (PrivateKey host1) of
                (Some err, _) \<Rightarrow> (Some (DecryptPrivateKeyFailed err), host1)
              | (None, privateKey) \<Rightarrow>
                  (let host2 = host1\<lparr>PrivateKey := privateKey\<rparr>
                   in case decrypt_field E encryptKey (Passphrase host2) of
                        (Some err, _) \<Rightarrow> (Some (DecryptPassphraseFailed err), host2)
                      | (None, passphrase) \<Rightarrow> (None, host2\<lparr>Passphrase := passphrase\<rparr>))))"

definition GetHost ::
  "(byte list \<Rightarrow> byte list \<Rightarrow> byte list) \<Rightarrow> byte list \<Rightarrow> (nat \<Rightarrow> Host option) \<Rightarrow> nat
     \<Rightarrow> crypto_error + Host" where
  "GetHost E encryptKey hostRepo i =
     (case hostRepo i of
        None \<Rightarrow> Inl HostNotFound
      | Some host \<Rightarrow>
          (case DecryptSensitiveData E encryptKey host of
             (Some err, _) \<Rightarrow> Inl (GetHostDecryptFailed err)
           | (None, host') \<Rightarrow> Inr host'))"

text \<open>
  \<^verbatim>\<open>GetAllHosts\<close> decrypts every host in place and goes on to the next host when one
  fails; it returns all hosts and no error.
\<close>

definition GetAllHosts ::
  "(byte list \<Rightarrow> byte list \<Rightarrow> byte list) \<Rightarrow> byte list \<Rightarrow> Host list \<Rightarrow> crypto_error + Host list" where
  "GetAllHosts E encryptKey hosts = Inr (map (\<lambda>host. snd (DecryptSensitiveData E encryptKey host)) hosts)"

subsection \<open>Round trip\<close>

lemma string_of_bytes_of: "string_of (bytes_of s) = s"
  by (induction s) (simp_all add: string_of_def bytes_of_def unat_of_nat)

lemma NewHostService_key_length: "length (NewHostService_key k) = 32"
  by (simp add: NewHostService_key_def Let_def)

lemma NewHostService_key_eq: "NewHostService_key k = take 32 (bytes_of k @ replicate 32 0)"
  by (simp add: NewHostService_key_def Let_def)

lemma decrypt_encrypt:
  assumes "\<And>key x. length (E key x) = 16" "length iv = 16"
    and "length key = 16 \<or> length key = 24 \<or> length key = 32"
  shows "encrypt E key (Some iv) p = Inr (EncodeToString (iv @ CFBEncrypter (E key) iv (bytes_of p)))"
    and "decrypt E key (EncodeToString (iv @ CFBEncrypter (E key) iv (bytes_of p))) = Inr p"
proof -
  have nc: "NewCipher E key = Inr (E key)" using assms(3) by (auto simp: NewCipher_def)
  show "encrypt E key (Some iv) p = Inr (EncodeToString (iv @ CFBEncrypter (E key) iv (bytes_of p)))"
    by (simp add: encrypt_def nc)
  have "CFBDecrypter (E key) iv (CFBEncrypter (E key) iv (bytes_of p)) = bytes_of p"
    by (rule CFB_round_trip) (rule assms(1))
  then show "decrypt E key (EncodeToString (iv @ CFBEncrypter (E key) iv (bytes_of p))) = Inr p"
    using assms(2) by (simp add: decrypt_def DecodeString_EncodeToString nc string_of_bytes_of)
qed

text \<open>
  Claim C3. With the key derived from the configured string by zero-padding or cutting to
  32 bytes, and for any 16-byte IV, encryption succeeds and decrypting its result gives
  back exactly the plaintext, whatever the block cipher (a function to 16-byte blocks).
\<close>

theorem decrypt_encrypt_round_trip:
  assumes "\<And>key x. length (E key x) = 16" and "length iv = 16"
  shows "length (NewHostService_key k) = 32
     \<and> NewHostService_key k = take 32 (bytes_of k @ replicate 32 0)
     \<and> (\<exists>c. encrypt E (NewHostService_key k) (Some iv) p = Inr c
            \<and> decrypt E (NewHostService_key k) c = Inr p)"
  using decrypt_encrypt [where E = E and iv = iv and key = "NewHostService_key k" and p = p,
      OF assms]
    NewHostService_key_length [of k] NewHostService_key_eq [of k]
  by blast

definition toy_block :: "byte list \<Rightarrow> byte list \<Rightarrow> byte list" where
  "toy_block key x = take 16 (map2 (XOR) (key @ replicate 16 0) (x @ replicate 16 0))"

lemma toy_block_length: "length (toy_block key x) = 16"
  by (simp add: toy_block_def)

theorem decrypt_encrypt_round_trip_witness:
  "length (replicate 16 (7::byte)) = 16
   \<and> length (NewHostService_key ''key'') = 32
   \<and> \<not> isl (encrypt toy_block (NewHostService_key ''key'') (Some (replicate 16 7)) ''hunter2'')
   \<and> decrypt toy_block (NewHostService_key ''key'')
        (projr (encrypt toy_block (NewHostService_key ''key'') (Some (replicate 16 7)) ''hunter2''))
       = Inr ''hunter2''"
proof -
  have l: "length (replicate 16 (7::byte)) = 16" by simp
  from decrypt_encrypt_round_trip [of toy_block "replicate 16 7" "''key''" "''hunter2''",
      OF toy_block_length l]
  obtain c where "encrypt toy_block (NewHostService_key ''key'') (Some (replicate 16 7)) ''hunter2'' = Inr c"
    "decrypt toy_block (NewHostService_key ''key'') c = Inr ''hunter2''"
    "length (NewHostService_key ''key'') = 32"
    by blast
  then show ?thesis by simp
qed

subsection \<open>Tolerant decryption\<close>

lemma decode_quanta_error: "decode_quanta s = Inl err \<Longrightarrow> err = CorruptInputError"
  by (induction s arbitrary: err rule: decode_quanta.induct)
    (auto split: option.splits if_splits sum.splits)

lemma DecodeString_error: "DecodeString s = Inl err \<Longrightarrow> err = CorruptInputError"
  unfolding DecodeString_def by (rule decode_quanta_error)

lemma decrypt_corrupt_iff:
  "decrypt E key f = Inl CorruptInputError \<longleftrightarrow> DecodeString f = Inl CorruptInputError"
  by (auto simp: decrypt_def NewCipher_def dest: DecodeString_error split: sum.splits if_splits)

lemma decrypt_field_ok_iff:
  "fst (decrypt_field E key f) = None \<longleftrightarrow>
     f = [] \<or> (\<exists>d. decrypt E key f = Inr d) \<or> DecodeString f = Inl CorruptInputError"
  unfolding decrypt_corrupt_iff [symmetric, of f E key]
  by (auto simp: decrypt_field_def illegal_base64_data_def split: sum.splits)

lemma decrypt_field_value:
  "snd (decrypt_field E key f) = f \<or> decrypt E key f = Inr (snd (decrypt_field E key f))"
  by (auto simp: decrypt_field_def split: sum.splits)

lemma decrypt_field_rejected:
  "DecodeString f = Inl CorruptInputError \<Longrightarrow> decrypt_field E key f = (None, f)"
  using decrypt_corrupt_iff [of E key f]
  by (auto simp: decrypt_field_def illegal_base64_data_def)

lemma DecryptSensitiveData_ok_iff:
  "fst (DecryptSensitiveData E key h) = None \<longleftrightarrow>
     fst (decrypt_field E key (Password h)) = None
     \<and> fst (decrypt_field E key (PrivateKey h)) = None
     \<and> fst (decrypt_field E key (Passphrase h)) = None"
  by (cases "decrypt_field E key (Password h)"; cases "decrypt_field E key (PrivateKey h)";
      cases "decrypt_field E key (Passphrase h)")
    (auto simp: DecryptSensitiveData_def Let_def split: option.splits)

lemma DecryptSensitiveData_fields:
  assumes "F = Password \<or> F = PrivateKey \<or> F = Passphrase"
  shows "F (snd (DecryptSensitiveData E key h)) = F h
       \<or> decrypt E key (F h) = Inr (F (snd (DecryptSensitiveData E key h)))"
  using assms decrypt_field_value [of E key "Password h"] decrypt_field_value [of E key "PrivateKey h"]
    decrypt_field_value [of E key "Passphrase h"]
  by (cases "decrypt_field E key (Password h)"; cases "decrypt_field E key (PrivateKey h)";
      cases "decrypt_field E key (Passphrase h)")
    (auto simp: DecryptSensitiveData_def Let_def split: option.splits)

lemma DecryptSensitiveData_rejected:
  assumes "F = Password \<or> F = PrivateKey \<or> F = Passphrase"
    and "DecodeString (F h) = Inl CorruptInputError"
  shows "F (snd (DecryptSensitiveData E key h)) = F h"
  using DecryptSensitiveData_fields [OF assms(1), of E key h] assms(2)
    decrypt_corrupt_iff [of E key "F h"]
  by auto

text \<open>
  Claim C6, as amended. For \<open>get\<close>: a secret field whose stored value the URL-safe base64
  decoder rejects is returned unchanged; the operation succeeds when every secret field is
  empty, rejected by the decoder or decryptable; and it returns an error when some non-empty
  field fails to decrypt for another reason (for example decoded data shorter than 16
  bytes). For \<open>getAll\<close>: the operation always succeeds and returns one host per stored
  host, with every field the decoder rejects unchanged; a host with a field that fails for
  another reason is returned as well, each of its fields either decrypted or as stored.
\<close>

theorem tolerant_decrypt_on_read:
  "(hostRepo i = Some h \<and> GetHost E key hostRepo i = Inr h'
      \<and> (F = Password \<or> F = PrivateKey \<or> F = Passphrase)
      \<and> DecodeString (F h) = Inl CorruptInputError \<longrightarrow> F h' = F h)
   \<and> (hostRepo i = Some h
      \<and> (Password h = [] \<or> (\<exists>d. decrypt E key (Password h) = Inr d)
           \<or> DecodeString (Password h) = Inl CorruptInputError)
      \<and> (PrivateKey h = [] \<or> (\<exists>d. decrypt E key (PrivateKey h) = Inr d)
           \<or> DecodeString (PrivateKey h) = Inl CorruptInputError)
      \<and> (Passphrase h = [] \<or> (\<exists>d. decrypt E key (Passphrase h) = Inr d)
           \<or> DecodeString (Passphrase h) = Inl CorruptInputError) \<longrightarrow>
        (\<exists>h''. GetHost E key hostRepo i = Inr h''))
   \<and> (hostRepo i = Some h \<and> (F = Password \<or> F = PrivateKey \<or> F = Passphrase)
      \<and> F h \<noteq> [] \<and> decrypt E key (F h) = Inl err \<and> err \<noteq> CorruptInputError \<longrightarrow>
        (\<exists>err'. GetHost E key hostRepo i = Inl err'))
   \<and> (\<exists>hs'. GetAllHosts E key hs = Inr hs' \<and> length hs' = length hs
        \<and> (\<forall>j < length hs.
              (\<forall>G. (G = Password \<or> G = PrivateKey \<or> G = Passphrase) \<longrightarrow>
                 (DecodeString (G (hs ! j)) = Inl CorruptInputError \<longrightarrow> G (hs' ! j) = G (hs ! j))
                 \<and> (G (hs' ! j) = G (hs ! j) \<or> decrypt E key (G (hs ! j)) = Inr (G (hs' ! j))))))"
proof (intro conjI impI)
  assume a: "hostRepo i = Some h \<and> GetHost E key hostRepo i = Inr h'
      \<and> (F = Password \<or> F = PrivateKey \<or> F = Passphrase)
      \<and> DecodeString (F h) = Inl CorruptInputError"
  then have "h' = snd (DecryptSensitiveData E key h)"
    by (auto simp: GetHost_def split: prod.splits option.splits)
  then show "F h' = F h" using a DecryptSensitiveData_rejected [of F h E key] by blast
next
  assume a: "hostRepo i = Some h
      \<and> (Password h = [] \<or> (\<exists>d. decrypt E key (Password h) = Inr d)
           \<or> DecodeString (Password h) = Inl CorruptInputError)
      \<and> (PrivateKey h = [] \<or> (\<exists>d. decrypt E key (PrivateKey h) = Inr d)
           \<or> DecodeString (PrivateKey h) = Inl CorruptInputError)
      \<and> (Passphrase h = [] \<or> (\<exists>d. decrypt E key (Passphrase h) = Inr d)
           \<or> DecodeString (Passphrase h) = Inl CorruptInputError)"
  then have "fst (DecryptSensitiveData E key h) = None"
    unfolding DecryptSensitiveData_ok_iff decrypt_field_ok_iff by blast
  then show "\<exists>h''. GetHost E key hostRepo i = Inr h''"
    using a by (cases "DecryptSensitiveData E key h") (simp add: GetHost_def)
next
  assume a: "hostRepo i = Some h \<and> (F = Password \<or> F = PrivateKey \<or> F = Passphrase)
      \<and> F h \<noteq> [] \<and> decrypt E key (F h) = Inl err \<and> err \<noteq> CorruptInputError"
  then have "DecodeString (F h) \<noteq> Inl CorruptInputError"
    using decrypt_corrupt_iff [of E key "F h"] by auto
  then have "fst (decrypt_field E key (F h)) \<noteq> None"
    using a unfolding decrypt_field_ok_iff by auto
  then have "fst (DecryptSensitiveData E key h) \<noteq> None"
    using a unfolding DecryptSensitiveData_ok_iff by auto
  then show "\<exists>err'. GetHost E key hostRepo i = Inl err'"
    using a by (cases "DecryptSensitiveData E key h") (auto simp: GetHost_def)
next
  show "\<exists>hs'. GetAllHosts E key hs = Inr hs' \<and> length hs' = length hs
        \<and> (\<forall>j < length hs.
              (\<forall>G. (G = Password \<or> G = PrivateKey \<or> G = Passphrase) \<longrightarrow>
                 (DecodeString (G (hs ! j)) = Inl CorruptInputError \<longrightarrow> G (hs' ! j) = G (hs ! j))
                 \<and> (G (hs' ! j) = G (hs ! j) \<or> decrypt E key (G (hs ! j)) = Inr (G (hs' ! j)))))"
    using DecryptSensitiveData_rejected [of _ _ E key] DecryptSensitiveData_fields [of _ E key]
    by (intro exI [of _ "map (\<lambda>host. snd (DecryptSensitiveData E key host)) hs"])
      (simp add: GetAllHosts_def)
qed

definition legacy_host :: Host where
  "legacy_host = \<lparr>host_ID = 1, Password = ''$$$$'', PrivateKey = [], Passphrase = []\<rparr>"

definition short_host :: Host where
  "short_host = \<lparr>host_ID = 2, Password = ''QUJD'', PrivateKey = [], Passphrase = []\<rparr>"

definition two_hosts :: "nat \<Rightarrow> Host option" where
  "two_hosts = (\<lambda>i. if i = 1 then Some legacy_host else if i = 2 then Some short_host else None)"

lemma DecodeString_legacy: "DecodeString ''$$$$'' = Inl CorruptInputError"
  by code_simp

lemma DecodeString_short: "DecodeString ''QUJD'' = Inr [0x41, 0x42, 0x43]"
  by code_simp

lemma decrypt_short: "decrypt toy_block (NewHostService_key ''key'') ''QUJD'' = Inl CiphertextTooShort"
  by (simp add: decrypt_def DecodeString_short NewCipher_def NewHostService_key_length)

theorem tolerant_decrypt_on_read_witness:
  "GetHost toy_block (NewHostService_key ''key'') two_hosts 1 = Inr legacy_host
   \<and> isl (GetHost toy_block (NewHostService_key ''key'') two_hosts 2)
   \<and> \<not> isl (GetAllHosts toy_block (NewHostService_key ''key'') [legacy_host, short_host])
   \<and> Password (projr (GetAllHosts toy_block (NewHostService_key ''key'') [legacy_host, short_host]) ! 0)
       = ''$$$$''"
proof -
  let ?key = "NewHostService_key ''key''"
  note t1 = tolerant_decrypt_on_read [where E = toy_block and key = ?key and hostRepo = two_hosts
      and i = 1 and h = legacy_host and h' = legacy_host and F = Password
      and err = CiphertextTooShort and hs = "[legacy_host, short_host]"]
  note t2 = tolerant_decrypt_on_read [where E = toy_block and key = ?key and hostRepo = two_hosts
      and i = 2 and h = short_host and h' = short_host and F = Password
      and err = CiphertextTooShort and hs = "[legacy_host, short_host]"]
  have r1: "two_hosts 1 = Some legacy_host" and r2: "two_hosts 2 = Some short_host"
    by (simp_all add: two_hosts_def)
  have f1: "DecodeString (Password legacy_host) = Inl CorruptInputError"
    "PrivateKey legacy_host = []" "Passphrase legacy_host = []"
    by (simp_all add: legacy_host_def DecodeString_legacy)
  have f2: "Password short_host \<noteq> []"
    "decrypt toy_block ?key (Password short_host) = Inl CiphertextTooShort"
    "CiphertextTooShort \<noteq> CorruptInputError"
    by (simp_all add: short_host_def decrypt_short)
  obtain h'' where g1: "GetHost toy_block ?key two_hosts 1 = Inr h''"
    using t1 r1 f1 by blast
  have "h'' = snd (DecryptSensitiveData toy_block ?key legacy_host)"
    using g1 r1 by (auto simp: GetHost_def split: prod.splits option.splits)
  moreover have "decrypt_field toy_block ?key ''$$$$'' = (None, ''$$$$'')"
    by (rule decrypt_field_rejected) (rule DecodeString_legacy)
  ultimately have "h'' = legacy_host"
    by (simp add: DecryptSensitiveData_def legacy_host_def decrypt_field_def)
  then have a: "GetHost toy_block ?key two_hosts 1 = Inr legacy_host" using g1 by simp
  have "\<exists>err'. GetHost toy_block ?key two_hosts 2 = Inl err'"
    using t2 r2 f2 by blast
  then have b: "isl (GetHost toy_block ?key two_hosts 2)" by auto
  obtain hs' where c: "GetAllHosts toy_block ?key [legacy_host, short_host] = Inr hs'"
    and d: "\<forall>j < length [legacy_host, short_host].
              (\<forall>G. (G = Password \<or> G = PrivateKey \<or> G = Passphrase) \<longrightarrow>
                 (DecodeString (G ([legacy_host, short_host] ! j)) = Inl CorruptInputError \<longrightarrow>
                    G (hs' ! j) = G ([legacy_host, short_host] ! j))
                 \<and> (G (hs' ! j) = G ([legacy_host, short_host] ! j)
                    \<or> decrypt toy_block ?key (G ([legacy_host, short_host] ! j)) = Inr (G (hs' ! j))))"
    using t1 by blast
  have "0 < length [legacy_host, short_host]" by simp
  with d have "DecodeString (Password ([legacy_host, short_host] ! 0)) = Inl CorruptInputError \<longrightarrow>
                    Password (hs' ! 0) = Password ([legacy_host, short_host] ! 0)"
    by blast
  then have "Password (hs' ! 0) = ''$$$$''" using f1(1) by (simp add: legacy_host_def)
  then show ?thesis using a b c by simp
qed

text \<open>
  Claim C6 as stated fails for \<open>getAll\<close>: a stored password that is valid base64 of three
  bytes makes \<^verbatim>\<open>decrypt\<close> fail with \<open>ciphertext too short\<close>, \<open>get\<close> returns an error,
  but \<open>getAll\<close> returns the host, unchanged, and no error.
\<close>

theorem GetAllHosts_swallows_failure_counterexample:
  "decrypt toy_block (NewHostService_key ''key'') (Password short_host) = Inl CiphertextTooShort
   \<and> GetAllHosts toy_block (NewHostService_key ''key'') [short_host] = Inr [short_host]
   \<and> GetHost toy_block (NewHostService_key ''key'') two_hosts 2
       = Inl (GetHostDecryptFailed (DecryptPasswordFailed CiphertextTooShort))"
  by (simp add: GetAllHosts_def GetHost_def two_hosts_def DecryptSensitiveData_def
      decrypt_field_def short_host_def decrypt_short illegal_base64_data_def)

end
